theory Spec2Isabelle
  imports Main "HOL-Library.Signed_Division"
begin

unbundle bit_operations_syntax

section \<open>The runtime: time values and calendar fields of a Date\<close>

text \<open>
  The TypeScript sources compute with \<^verbatim>\<open>Date\<close> objects.  A valid \<^verbatim>\<open>Date\<close> is its
  time value, an integral number of milliseconds since 1970-01-01T00:00Z; the calendar
  fields are functions of the time value, fixed by ECMA-262 (section "Date Objects":
  Day, DayFromYear, YearFromTime, MonthFromTime, DateFromTime, MakeDay, TimeClip).
  These functions are transcribed here.  All numbers that occur are integers far below
  \<open>2 ^ 53\<close>, where double arithmetic is exact, so they are modelled by \<open>int\<close>; a Number
  that may be \<^verbatim>\<open>NaN\<close> is an \<open>int option\<close> with \<open>None\<close> for \<^verbatim>\<open>NaN\<close>.
\<close>

type_synonym Date = int
type_synonym number = "int option"

definition msPerDay :: int where
  "msPerDay = 86400000"

definition Day :: "int \<Rightarrow> int" where
  "Day t = t div msPerDay"

definition DayFromYear :: "int \<Rightarrow> int" where
  "DayFromYear y = 365 * (y - 1970) + (y - 1969) div 4 - (y - 1901) div 100 + (y - 1601) div 400"

definition DaysInYear :: "int \<Rightarrow> int" where
  "DaysInYear y =
     (if y mod 4 \<noteq> 0 then 365
      else if y mod 100 \<noteq> 0 then 366
      else if y mod 400 \<noteq> 0 then 365
      else 366)"

text \<open>
  ECMA-262 defines YearFromTime as the largest year whose first day is not after the
  given day.  \<open>YearFromDay\<close> computes it from an estimate that is off by at most one;
  lemma \<open>YearFromDay_bounds\<close> below shows that the result is the year of the definition.
\<close>

definition YearFromDay :: "int \<Rightarrow> int" where
  "YearFromDay d =
     (let y = 1970 + (400 * d) div 146097
      in if d < DayFromYear y then y - 1
         else if DayFromYear (y + 1) \<le> d then y + 1
         else y)"

definition YearFromTime :: "int \<Rightarrow> int" where
  "YearFromTime t = YearFromDay (Day t)"

definition InLeapYear :: "int \<Rightarrow> int" where
  "InLeapYear t = (if DaysInYear (YearFromTime t) = 366 then 1 else 0)"

definition DayWithinYear :: "int \<Rightarrow> int" where
  "DayWithinYear t = Day t - DayFromYear (YearFromTime t)"

text \<open>Number of days of the year before month \<open>mn\<close> (0 is January), \<open>l\<close> the leap flag.\<close>

definition monthStart :: "int \<Rightarrow> int \<Rightarrow> int" where
  "monthStart l mn =
     (if mn = 0 then 0 else if mn = 1 then 31 else if mn = 2 then 59 + l
      else if mn = 3 then 90 + l else if mn = 4 then 120 + l else if mn = 5 then 151 + l
      else if mn = 6 then 181 + l else if mn = 7 then 212 + l else if mn = 8 then 243 + l
      else if mn = 9 then 273 + l else if mn = 10 then 304 + l else 334 + l)"

definition MonthFromTime :: "int \<Rightarrow> int" where
  "MonthFromTime t =
     (let d = DayWithinYear t; l = InLeapYear t
      in if d < 31 then 0 else if d < 59 + l then 1 else if d < 90 + l then 2
         else if d < 120 + l then 3 else if d < 151 + l then 4 else if d < 181 + l then 5
         else if d < 212 + l then 6 else if d < 243 + l then 7 else if d < 273 + l then 8
         else if d < 304 + l then 9 else if d < 334 + l then 10 else 11)"

definition DateFromTime :: "int \<Rightarrow> int" where
  "DateFromTime t = DayWithinYear t - monthStart (InLeapYear t) (MonthFromTime t) + 1"

definition MakeDay :: "int \<Rightarrow> int \<Rightarrow> int \<Rightarrow> int" where
  "MakeDay y m dt =
     (let ym = y + m div 12; mn = m mod 12
      in DayFromYear ym + monthStart (if DaysInYear ym = 366 then 1 else 0) mn + dt - 1)"

definition TimeClip :: "int \<Rightarrow> number" where
  "TimeClip v = (if \<bar>v\<bar> > 8640000000000000 then None else Some v)"

text \<open>
  \<^verbatim>\<open>Date.UTC(year, month, date, hours, minutes, seconds)\<close>: MakeDate of MakeDay and
  MakeTime, then TimeClip.  A year from 0 to 99 counts from 1900.
\<close>

definition UTC_value :: "int \<Rightarrow> int \<Rightarrow> int \<Rightarrow> int \<Rightarrow> int \<Rightarrow> int \<Rightarrow> int" where
  "UTC_value y m dt h mi s =
     (let yr = (if 0 \<le> y \<and> y \<le> 99 then 1900 + y else y)
      in MakeDay yr m dt * msPerDay + (h * 3600000 + mi * 60000 + s * 1000))"

definition Date_UTC :: "int \<Rightarrow> int \<Rightarrow> int \<Rightarrow> int \<Rightarrow> int \<Rightarrow> int \<Rightarrow> number" where
  "Date_UTC y m dt h mi s = TimeClip (UTC_value y m dt h mi s)"

definition getUTCFullYear :: "Date \<Rightarrow> int" where
  "getUTCFullYear t = YearFromTime t"

definition getUTCMonth :: "Date \<Rightarrow> int" where
  "getUTCMonth t = MonthFromTime t"

definition getUTCDate :: "Date \<Rightarrow> int" where
  "getUTCDate t = DateFromTime t"

text \<open>
  \<^verbatim>\<open>getFullYear\<close> reads the year in the local time of the runtime.  The local time zone
  adjustment is a function \<open>tza\<close> of the time value (ECMA-262 LocalTZA); it is a parameter
  of every definition that reads a local field.
\<close>

definition getFullYear :: "(int \<Rightarrow> int) \<Rightarrow> Date \<Rightarrow> int" where
  "getFullYear tza t = YearFromTime (t + tza t)"

text \<open>JavaScript's \<^verbatim>\<open>%\<close> on integers truncates towards zero: it is \<open>smod\<close>.\<close>

definition js_rem :: "int \<Rightarrow> int \<Rightarrow> int" where
  "js_rem a b = a smod b"

text \<open>\<^verbatim>\<open>Array.prototype.indexOf\<close>: the first position of an element, or \<open>-1\<close>.\<close>

fun indexOf :: "'a list \<Rightarrow> 'a \<Rightarrow> int" where
  "indexOf [] x = -1"
| "indexOf (y # ys) x =
     (if y = x then 0 else (let i = indexOf ys x in if i < 0 then -1 else i + 1))"

text \<open>
  Reading an array outside its bounds gives \<^verbatim>\<open>undefined\<close> (\<open>None\<close>); \<^verbatim>\<open>undefined & k\<close>
  is 0.  The table entries are below \<open>2 ^ 17\<close>, so the conversion to 32 bits that \<^verbatim>\<open>&\<close>
  and \<^verbatim>\<open>>>\<close> apply changes nothing; \<^verbatim>\<open>>>\<close> takes its shift count modulo 32.
\<close>

definition arr_get :: "'a list \<Rightarrow> int \<Rightarrow> 'a option" where
  "arr_get xs i = (if 0 \<le> i \<and> i < int (length xs) then Some (xs ! nat i) else None)"

definition js_and :: "int option \<Rightarrow> int \<Rightarrow> int" where
  "js_and v k = (case v of None \<Rightarrow> 0 | Some n \<Rightarrow> n AND k)"

definition js_shr :: "int \<Rightarrow> int \<Rightarrow> int" where
  "js_shr a k = drop_bit (nat (k mod 32)) a"

text \<open>Arithmetic and comparison with \<^verbatim>\<open>NaN\<close>: every comparison with \<^verbatim>\<open>NaN\<close> is false.\<close>

definition js_lt :: "number \<Rightarrow> number \<Rightarrow> bool" where
  "js_lt a b = (case a of None \<Rightarrow> False | Some x \<Rightarrow> (case b of None \<Rightarrow> False | Some y \<Rightarrow> x < y))"

definition js_gt :: "number \<Rightarrow> number \<Rightarrow> bool" where
  "js_gt a b = js_lt b a"

definition js_ge :: "number \<Rightarrow> number \<Rightarrow> bool" where
  "js_ge a b = (case a of None \<Rightarrow> False | Some x \<Rightarrow> (case b of None \<Rightarrow> False | Some y \<Rightarrow> x \<ge> y))"

definition js_add :: "number \<Rightarrow> number \<Rightarrow> number" where
  "js_add a b = (case a of None \<Rightarrow> None | Some x \<Rightarrow> (case b of None \<Rightarrow> None | Some y \<Rightarrow> Some (x + y)))"

definition js_sub :: "number \<Rightarrow> number \<Rightarrow> number" where
  "js_sub a b = (case a of None \<Rightarrow> None | Some x \<Rightarrow> (case b of None \<Rightarrow> None | Some y \<Rightarrow> Some (x - y)))"

datatype error =
    LichunNotFound int
  | InvalidTermIndex int
  | SolarYearOutOfRange
  | NegativeOffset
  | LunarYearOutOfRange int
  | InvalidLunarMonth int
  | InvalidLunarDay number
  | NoSuchLeapMonth int int
  | DayExceedsMonth int int int

section \<open>Year pillar (core/pillars/yearPillar.ts)\<close>

datatype HeavenlyStem = Jia | Yi | Bing | Ding | Wu | Ji | Geng | Xin | Ren | Gui

datatype EarthlyBranch =
  Zi | Chou | Yin | Mao | Chen | Si | Wu_branch | Wei | Shen | You | Xu | Hai

record Pillar =
  stem :: HeavenlyStem
  branch :: EarthlyBranch

record SolarTerm =
  name :: string
  index :: int
  moment :: Date
  longitude :: int

definition HEAVENLY_STEMS :: "HeavenlyStem list" where
  "HEAVENLY_STEMS = [Jia, Yi, Bing, Ding, Wu, Ji, Geng, Xin, Ren, Gui]"

definition EARTHLY_BRANCHES :: "EarthlyBranch list" where
  "EARTHLY_BRANCHES = [Zi, Chou, Yin, Mao, Chen, Si, Wu_branch, Wei, Shen, You, Xu, Hai]"

definition LICHUN_INDEX :: int where
  "LICHUN_INDEX = 2"

definition getYearPillar :: "int \<Rightarrow> Pillar" where
  "getYearPillar year =
     (let stemIndex = js_rem (js_rem (year - 4) 10 + 10) 10;
          branchIndex = js_rem (js_rem (year - 4) 12 + 12) 12
      in \<lparr>stem = HEAVENLY_STEMS ! nat stemIndex, branch = EARTHLY_BRANCHES ! nat branchIndex\<rparr>)"

fun findLichunMoment :: "(int \<Rightarrow> int) \<Rightarrow> SolarTerm list \<Rightarrow> int \<Rightarrow> Date option" where
  "findLichunMoment tza [] year = None"
| "findLichunMoment tza (term # solarTerms) year =
     (if index term = LICHUN_INDEX \<and> getFullYear tza (moment term) = year
      then Some (moment term)
      else findLichunMoment tza solarTerms year)"

definition calculateYearPillar :: "(int \<Rightarrow> int) \<Rightarrow> Date \<Rightarrow> SolarTerm list \<Rightarrow> error + Pillar" where
  "calculateYearPillar tza trueSolarTime solarTerms =
     (let year = getFullYear tza trueSolarTime
      in case findLichunMoment tza solarTerms year of
           None \<Rightarrow> Inl (LichunNotFound year)
         | Some lichunMoment \<Rightarrow>
             (let effectiveYear = (if trueSolarTime \<ge> lichunMoment then year else year - 1)
              in Inr (getYearPillar effectiveYear)))"

text \<open>The index of a stem or branch is its position in the table it was read from.\<close>

definition stemIndexOf :: "HeavenlyStem \<Rightarrow> int" where
  "stemIndexOf s = indexOf HEAVENLY_STEMS s"

definition branchIndexOf :: "EarthlyBranch \<Rightarrow> int" where
  "branchIndexOf b = indexOf EARTHLY_BRANCHES b"

section \<open>Daylight saving time (core/calendar/dst.ts)\<close>

text \<open>
  The fields of \<^verbatim>\<open>DSTEntry\<close> are \<^verbatim>\<open>year\<close>, \<^verbatim>\<open>start\<close> and \<^verbatim>\<open>end\<close>; they carry the prefix
  \<open>e\<close> here.  The table's dates are built by \<^verbatim>\<open>Date.UTC\<close> from fields in range, so each is
  a valid date and is given by its time value \<open>UTC_value\<close>.
\<close>

record DSTEntry =
  eyear :: int
  estart :: Date
  eend :: Date

definition DST_TABLE :: "DSTEntry list" where
  "DST_TABLE =
     [\<lparr>eyear = 1986, estart = UTC_value 1986 4 4 2 0 0, eend = UTC_value 1986 8 14 2 0 0\<rparr>,
      \<lparr>eyear = 1987, estart = UTC_value 1987 3 12 2 0 0, eend = UTC_value 1987 8 13 2 0 0\<rparr>,
      \<lparr>eyear = 1988, estart = UTC_value 1988 3 10 2 0 0, eend = UTC_value 1988 8 11 2 0 0\<rparr>,
      \<lparr>eyear = 1989, estart = UTC_value 1989 3 16 2 0 0, eend = UTC_value 1989 8 17 2 0 0\<rparr>,
      \<lparr>eyear = 1990, estart = UTC_value 1990 3 15 2 0 0, eend = UTC_value 1990 8 16 2 0 0\<rparr>,
      \<lparr>eyear = 1991, estart = UTC_value 1991 3 14 2 0 0, eend = UTC_value 1991 8 15 2 0 0\<rparr>]"

definition isDSTActive :: "Date \<Rightarrow> bool" where
  "isDSTActive date =
     (let year = getUTCFullYear date
      in if year < 1986 \<or> year > 1991 then False
         else case find (\<lambda>e. eyear e = year) DST_TABLE of
                None \<Rightarrow> False
              | Some entry \<Rightarrow>
                  (let timestamp = date
                   in timestamp \<ge> estart entry \<and> timestamp < eend entry))"

text \<open>The result is a \<^verbatim>\<open>Date\<close> that the constructor may have made invalid (\<open>None\<close>).\<close>

definition applyDSTCorrection :: "Date \<Rightarrow> bool \<Rightarrow> number" where
  "applyDSTCorrection date userConfirmedDST =
     (if userConfirmedDST \<and> isDSTActive date
      then TimeClip (date - 60 * 60 * 1000)
      else Some date)"

text \<open>An instant lies in some window of the table.\<close>

definition inSomeDSTWindow :: "Date \<Rightarrow> bool" where
  "inSomeDSTWindow d = list_ex (\<lambda>e. estart e \<le> d \<and> d < eend e) DST_TABLE"

text \<open>An instant lies in the window that the table gives for the instant's own year.\<close>

definition inOwnYearDSTWindow :: "Date \<Rightarrow> bool" where
  "inOwnYearDSTWindow d =
     list_ex (\<lambda>e. eyear e = getUTCFullYear d \<and> estart e \<le> d \<and> d < eend e) DST_TABLE"

section \<open>Lunisolar calendar (core/calendar/lunarCalendar.ts)\<close>

text \<open>
  The fields of \<^verbatim>\<open>LunarDate\<close> are \<^verbatim>\<open>year\<close>, \<^verbatim>\<open>month\<close>, \<^verbatim>\<open>day\<close> and \<^verbatim>\<open>isLeapMonth\<close>; the
  first three carry the prefix \<open>l\<close> here.  The day is the one field that the module itself
  can set to \<^verbatim>\<open>NaN\<close>, so it is a \<open>number\<close>.
\<close>

record LunarDate =
  lyear :: int
  lmonth :: int
  lday :: number
  isLeapMonth :: bool

definition LUNAR_INFO :: "int list" where
  "LUNAR_INFO =
     [
      0x04bd8, 0x04ae0, 0x0a570, 0x054d5, 0x0d260, 0x0d950,
      0x16554, 0x056a0, 0x09ad0, 0x055d2, 0x04ae0, 0x0a5b6,
      0x0a4d0, 0x0d250, 0x1d255, 0x0b540, 0x0d6a0, 0x0ada2,
      0x095b0, 0x14977, 0x04970, 0x0a4b0, 0x0b4b5, 0x06a50,
      0x06d40, 0x1ab54, 0x02b60, 0x09570, 0x052f2, 0x04970,
      0x06566, 0x0d4a0, 0x0ea50, 0x16a95, 0x05ad0, 0x02b60,
      0x186e3, 0x092e0, 0x1c8d7, 0x0c950, 0x0d4a0, 0x1d8a6,
      0x0b550, 0x056a0, 0x1a5b4, 0x025d0, 0x092d0, 0x0d2b2,
      0x0a950, 0x0b557, 0x06ca0, 0x0b550, 0x15355, 0x04da0,
      0x0a5b0, 0x14573, 0x052b0, 0x0a9a8, 0x0e950, 0x06aa0,
      0x0aea6, 0x0ab50, 0x04b60, 0x0aae4, 0x0a570, 0x05260,
      0x0f263, 0x0d950, 0x05b57, 0x056a0, 0x096d0, 0x04dd5,
      0x04ad0, 0x0a4d0, 0x0d4d4, 0x0d250, 0x0d558, 0x0b540,
      0x0b6a0, 0x195a6, 0x095b0, 0x049b0, 0x0a974, 0x0a4b0,
      0x0b27a, 0x06a50, 0x06d40, 0x0af46, 0x0ab60, 0x09570,
      0x04af5, 0x04970, 0x064b0, 0x074a3, 0x0ea50, 0x06b58,
      0x05ac0, 0x0ab60, 0x096d5, 0x092e0, 0x0c960, 0x0d954,
      0x0d4a0, 0x0da50, 0x07552, 0x056a0, 0x0abb7, 0x025d0,
      0x092d0, 0x0cab5, 0x0a950, 0x0b4a0, 0x0baa4, 0x0ad50,
      0x055d9, 0x04ba0, 0x0a5b0, 0x15176, 0x052b0, 0x0a930,
      0x07954, 0x06aa0, 0x0ad50, 0x05b52, 0x04b60, 0x0a6e6,
      0x0a4e0, 0x0d260, 0x0ea65, 0x0d530, 0x05aa0, 0x076a3,
      0x096d0, 0x04afb, 0x04ad0, 0x0a4d0, 0x1d0b6, 0x0d250,
      0x0d520, 0x0dd45, 0x0b5a0, 0x056d0, 0x055b2, 0x049b0,
      0x0a577, 0x0a4b0, 0x0aa50, 0x1b255, 0x06d20, 0x0ada0,
      0x14b63, 0x09370, 0x049f8, 0x04970, 0x064b0, 0x168a6,
      0x0ea50, 0x06aa0, 0x1a6c4, 0x0aae0, 0x092e0, 0x0d2e3,
      0x0c960, 0x0d557, 0x0d4a0, 0x0da50, 0x05d55, 0x056a0,
      0x0a6d0, 0x055d4, 0x052d0, 0x0a9b8, 0x0a950, 0x0b4a0,
      0x0b6a6, 0x0ad50, 0x055a0, 0x0aba4, 0x0a5b0, 0x052b0,
      0x0b273, 0x06930, 0x07337, 0x06aa0, 0x0ad50, 0x14b55,
      0x04b60, 0x0a570, 0x054e4, 0x0d160, 0x0e968, 0x0d520,
      0x0daa0, 0x16aa6, 0x056d0, 0x04ae0, 0x0a9d4, 0x0a4d0,
      0x0d150, 0x0f252, 0x0d520]"

definition SPRING_FESTIVAL :: "int list" where
  "SPRING_FESTIVAL =
     [
      131, 219, 208, 129, 216, 204, 125, 213, 202, 121,
      210, 130, 218, 206, 126, 214, 203, 123, 211, 201,
      220, 208, 128, 216, 205, 124, 213, 202, 123, 210,
      130, 217, 206, 126, 214, 204, 124, 211, 131, 219,
      208, 127, 215, 205, 125, 213, 202, 122, 210, 129,
      217, 206, 127, 214, 203, 124, 212, 131, 218, 208,
      128, 215, 205, 125, 213, 202, 121, 209, 130, 217,
      206, 127, 215, 203, 123, 211, 131, 218, 207, 128,
      216, 205, 125, 213, 202, 220, 209, 129, 217, 206,
      127, 215, 204, 123, 210, 131, 219, 207, 128, 216,
      205, 124, 212, 201, 122, 209, 129, 218, 207, 126,
      214, 203, 123, 210, 131, 219, 208, 128, 216, 205,
      125, 212, 201, 122, 210, 129, 217, 206, 126, 213,
      203, 123, 211, 131, 219, 208, 128, 215, 204, 124,
      212, 201, 122, 210, 130, 217, 206, 126, 214, 202,
      123, 211, 201, 119, 208, 128, 215, 204, 124, 212,
      202, 121, 210, 129, 217, 205, 126, 214, 203, 123,
      211, 131, 219, 208, 127, 215, 205, 124, 212, 202,
      121, 209, 129, 217, 206, 126, 214, 203, 124, 211,
      131, 218, 207, 127, 215, 204, 125, 212, 202, 121,
      209]"

definition getLeapMonthInternal :: "int \<Rightarrow> int" where
  "getLeapMonthInternal year = js_and (arr_get LUNAR_INFO (year - 1900)) 0xf"

definition getLeapMonthDays :: "int \<Rightarrow> int" where
  "getLeapMonthDays year =
     (if getLeapMonthInternal year = 0 then 0
      else if js_and (arr_get LUNAR_INFO (year - 1900)) 0x10 \<noteq> 0 then 30 else 29)"

definition getMonthDays :: "int \<Rightarrow> int \<Rightarrow> int" where
  "getMonthDays year month =
     (if js_and (arr_get LUNAR_INFO (year - 1900)) (js_shr 0x10000 (month - 1)) \<noteq> 0
      then 30 else 29)"

definition getLunarYearDays :: "int \<Rightarrow> int" where
  "getLunarYearDays year =
     (let total = fold (\<lambda>m total. total + getMonthDays year m) [1..12] 0
      in total + getLeapMonthDays year)"

definition getSpringFestivalDate :: "int \<Rightarrow> number" where
  "getSpringFestivalDate year =
     (case arr_get SPRING_FESTIVAL (year - 1900) of
        None \<Rightarrow> None
      | Some code \<Rightarrow>
          (let month = code div 100; day = js_rem code 100
           in Date_UTC year (month - 1) day 0 0 0))"

definition daysBetween :: "number \<Rightarrow> number \<Rightarrow> number" where
  "daysBetween d1 d2 =
     (case d1 of None \<Rightarrow> None | Some t1 \<Rightarrow>
      (case d2 of None \<Rightarrow> None | Some t2 \<Rightarrow>
       (let utc1 = Date_UTC (getUTCFullYear t1) (getUTCMonth t1) (getUTCDate t1) 0 0 0;
            utc2 = Date_UTC (getUTCFullYear t2) (getUTCMonth t2) (getUTCDate t2) 0 0 0
        in case js_sub utc2 utc1 of None \<Rightarrow> None | Some diff \<Rightarrow> Some (diff div 86400000))))"

definition getLeapMonth :: "int \<Rightarrow> error + int" where
  "getLeapMonth year =
     (if year < 1900 \<or> year > 2100 then Inl (LunarYearOutOfRange year)
      else Inr (getLeapMonthInternal year))"

text \<open>
  The month loop of \<^verbatim>\<open>solarToLunar\<close>, over the months still to visit.  It returns
  \<^verbatim>\<open>lunarMonth\<close> (0 when the loop ran to its end without \<^verbatim>\<open>break\<close>), \<^verbatim>\<open>isLeapMonth\<close> and
  the remaining \<^verbatim>\<open>offset\<close>.
\<close>

fun monthLoop :: "int \<Rightarrow> int \<Rightarrow> int list \<Rightarrow> number \<Rightarrow> int \<times> bool \<times> number" where
  "monthLoop lunarYear leapMonth [] offset = (0, False, offset)"
| "monthLoop lunarYear leapMonth (m # ms) offset =
     (let days = getMonthDays lunarYear m
      in if js_lt offset (Some days) then (m, False, offset)
         else (let offset = js_sub offset (Some days)
               in if leapMonth = m
                  then (let leapDays = getLeapMonthDays lunarYear
                        in if js_lt offset (Some leapDays) then (m, True, offset)
                           else monthLoop lunarYear leapMonth ms (js_sub offset (Some leapDays)))
                  else monthLoop lunarYear leapMonth ms offset))"

definition solarToLunar :: "Date \<Rightarrow> error + LunarDate" where
  "solarToLunar date =
     (let solarYear = getUTCFullYear date;
          solarMonth = getUTCMonth date + 1;
          solarDay = getUTCDate date
      in if solarYear < 1900 \<or> solarYear > 2100 then Inl SolarYearOutOfRange
         else
          (let inputDate = Date_UTC solarYear (solarMonth - 1) solarDay 0 0 0;
               springFestival = getSpringFestivalDate solarYear;
               lunarYear = (if js_ge inputDate springFestival then solarYear else solarYear - 1);
               yearSpringFestival = getSpringFestivalDate lunarYear;
               offset = daysBetween yearSpringFestival inputDate
           in if js_lt offset (Some 0) then Inl NegativeOffset
              else
               (let leapMonth = getLeapMonthInternal lunarYear;
                    (lunarMonth, isLeap, offset) = monthLoop lunarYear leapMonth [1..12] offset;
                    (lunarMonth, isLeap) = (if lunarMonth = 0 then (12, False) else (lunarMonth, isLeap))
                in Inr \<lparr>lyear = lunarYear, lmonth = lunarMonth,
                         lday = js_add offset (Some 1), isLeapMonth = isLeap\<rparr>)))"

text \<open>The summation loop of \<^verbatim>\<open>lunarToSolar\<close> over the months before the target month.\<close>

fun sumLoop :: "int \<Rightarrow> int \<Rightarrow> int list \<Rightarrow> int \<Rightarrow> int" where
  "sumLoop year leapMonth [] offset = offset"
| "sumLoop year leapMonth (m # ms) offset =
     (let offset = offset + getMonthDays year m;
          offset = (if leapMonth = m then offset + getLeapMonthDays year else offset)
      in sumLoop year leapMonth ms offset)"

definition lunarToSolar :: "LunarDate \<Rightarrow> error + number" where
  "lunarToSolar lunarDate =
     (let year = lyear lunarDate; month = lmonth lunarDate; day = lday lunarDate;
          isLeap = isLeapMonth lunarDate
      in if year < 1900 \<or> year > 2100 then Inl (LunarYearOutOfRange year)
         else if month < 1 \<or> month > 12 then Inl (InvalidLunarMonth month)
         else if js_lt day (Some 1) \<or> js_gt day (Some 30) then Inl (InvalidLunarDay day)
         else
          (let leapMonth = getLeapMonthInternal year
           in if isLeap \<and> leapMonth \<noteq> month then Inl (NoSuchLeapMonth year month)
              else
               (let maxDays = (if isLeap then getLeapMonthDays year else getMonthDays year month)
                in if js_gt day (Some maxDays) then Inl (DayExceedsMonth year month maxDays)
                   else
                    (let offset = sumLoop year leapMonth [1..month - 1] 0;
                         offset = (if isLeap then offset + getMonthDays year month else offset);
                         offset = js_add (Some offset) (js_sub day (Some 1));
                         springFestival = getSpringFestivalDate year
                     in Inr (case js_add springFestival
                                    (case offset of None \<Rightarrow> None | Some k \<Rightarrow> Some (k * 86400000)) of
                               None \<Rightarrow> None
                             | Some v \<Rightarrow> TimeClip v)))))"

text \<open>
  The lunar year that \<^verbatim>\<open>solarToLunar\<close> assigns to an instant, and the number of days from
  that year's \<^verbatim>\<open>SPRING_FESTIVAL\<close> date to the instant's date.
\<close>

definition lunarYearOf :: "Date \<Rightarrow> int" where
  "lunarYearOf date =
     (let solarYear = getUTCFullYear date;
          inputDate = Date_UTC solarYear (getUTCMonth date) (getUTCDate date) 0 0 0
      in if js_ge inputDate (getSpringFestivalDate solarYear) then solarYear else solarYear - 1)"

definition lunarOffsetOf :: "Date \<Rightarrow> number" where
  "lunarOffsetOf date =
     daysBetween (getSpringFestivalDate (lunarYearOf date))
       (Date_UTC (getUTCFullYear date) (getUTCMonth date) (getUTCDate date) 0 0 0)"

text \<open>Two instants have the same calendar date.\<close>

definition sameDate :: "Date \<Rightarrow> Date \<Rightarrow> bool" where
  "sameDate a b \<longleftrightarrow>
     getUTCFullYear a = getUTCFullYear b \<and> getUTCMonth a = getUTCMonth b \<and>
     getUTCDate a = getUTCDate b"

text \<open>
  The round trip of the two conversions returns a date, and it is the calendar date of
  the instant it started from.
\<close>

definition roundTrips :: "Date \<Rightarrow> bool" where
  "roundTrips date =
     (case solarToLunar date of
        Inl e \<Rightarrow> False
      | Inr lunar \<Rightarrow>
          (case lunarToSolar lunar of
             Inl e \<Rightarrow> False
           | Inr None \<Rightarrow> False
           | Inr (Some back) \<Rightarrow> sameDate back date))"

section \<open>Solar terms (core/calendar/solarTerms.ts)\<close>


text \<open>
  The solar-term routines compute with doubles.  A double is \<^verbatim>\<open>NaN\<close> (\<open>None\<close>) or a value of
  a type \<open>'r\<close> that is left open; the operations on values are the fields of a record.  An
  operation on values may yield \<^verbatim>\<open>NaN\<close>; applied to \<^verbatim>\<open>NaN\<close> it yields \<^verbatim>\<open>NaN\<close>, and every
  comparison with \<^verbatim>\<open>NaN\<close> is false.  \<open>fint\<close> is the double of an integer, \<open>fdec m k\<close> the
  double that the source writes as the decimal \<open>m / 10 ^ k\<close>, \<open>ftoInteger\<close> the integer
  that \<^verbatim>\<open>Date.UTC\<close> reads from an argument (none for an infinity).

  Two routines of the source stay fields of the record: \<^verbatim>\<open>sunApparentLongitude\<close> (the
  VSOP87 and nutation sums) and \<^verbatim>\<open>deltaT\<close>.  Both return \<^verbatim>\<open>NaN\<close> for \<^verbatim>\<open>NaN\<close>: every term
  of the sums contains the argument, and in \<^verbatim>\<open>deltaT\<close> all comparisons fail and the last
  branch squares the argument.
\<close>

record 'r arith =
  fint :: "int \<Rightarrow> 'r"
  fdec :: "int \<Rightarrow> nat \<Rightarrow> 'r"
  fadd :: "'r \<Rightarrow> 'r \<Rightarrow> 'r option"
  fsub :: "'r \<Rightarrow> 'r \<Rightarrow> 'r option"
  fmul :: "'r \<Rightarrow> 'r \<Rightarrow> 'r option"
  fdiv :: "'r \<Rightarrow> 'r \<Rightarrow> 'r option"
  ffloor :: "'r \<Rightarrow> 'r option"
  fround :: "'r \<Rightarrow> 'r option"
  fabs :: "'r \<Rightarrow> 'r option"
  flt :: "'r \<Rightarrow> 'r \<Rightarrow> bool"
  ftoInteger :: "'r \<Rightarrow> int option"
  fsunApparentLongitude :: "'r \<Rightarrow> 'r option"
  fdeltaT :: "'r \<Rightarrow> 'r option"

definition d_op :: "('r \<Rightarrow> 'r \<Rightarrow> 'r option) \<Rightarrow> 'r option \<Rightarrow> 'r option \<Rightarrow> 'r option" where
  "d_op f a b = (case a of None \<Rightarrow> None | Some x \<Rightarrow> (case b of None \<Rightarrow> None | Some y \<Rightarrow> f x y))"

definition d_fun :: "('r \<Rightarrow> 'r option) \<Rightarrow> 'r option \<Rightarrow> 'r option" where
  "d_fun f a = (case a of None \<Rightarrow> None | Some x \<Rightarrow> f x)"

definition d_lt :: "'r arith \<Rightarrow> 'r option \<Rightarrow> 'r option \<Rightarrow> bool" where
  "d_lt fp a b = (case a of None \<Rightarrow> False | Some x \<Rightarrow> (case b of None \<Rightarrow> False | Some y \<Rightarrow> flt fp x y))"

definition d_gt :: "'r arith \<Rightarrow> 'r option \<Rightarrow> 'r option \<Rightarrow> bool" where
  "d_gt fp a b = d_lt fp b a"
















section \<open>Properties of the runtime's calendar functions\<close>

lemma div_bounds:
  fixes x k :: int
  assumes "0 < k"
  shows "k * (x div k) \<le> x \<and> x < k * (x div k) + k"
proof -
  have "x = k * (x div k) + x mod k" by simp
  moreover have "0 \<le> x mod k" "x mod k < k" using assms by simp_all
  ultimately show ?thesis by linarith
qed

lemma DayFromYear_upper: "400 * DayFromYear y \<le> 146097 * (y - 1970) + 589"
proof -
  define a b c where "a = (y - 1969) div 4" and "b = (y - 1901) div 100" and "c = (y - 1601) div 400"
  have "4 * a \<le> y - 1969" using div_bounds[of 4 "y - 1969"] by (simp add: a_def)
  moreover have "y - 1901 < 100 * b + 100" using div_bounds[of 100 "y - 1901"] by (simp add: b_def)
  moreover have "400 * c \<le> y - 1601" using div_bounds[of 400 "y - 1601"] by (simp add: c_def)
  moreover have "DayFromYear y = 365 * (y - 1970) + a - b + c" by (simp add: DayFromYear_def a_def b_def c_def)
  ultimately show ?thesis by simp
qed

lemma DayFromYear_lower: "146097 * (y - 1970) - 506 \<le> 400 * DayFromYear y"
proof -
  define a b c where "a = (y - 1969) div 4" and "b = (y - 1901) div 100" and "c = (y - 1601) div 400"
  have "y - 1969 < 4 * a + 4" using div_bounds[of 4 "y - 1969"] by (simp add: a_def)
  moreover have "100 * b \<le> y - 1901" using div_bounds[of 100 "y - 1901"] by (simp add: b_def)
  moreover have "y - 1601 < 400 * c + 400" using div_bounds[of 400 "y - 1601"] by (simp add: c_def)
  moreover have "DayFromYear y = 365 * (y - 1970) + a - b + c" by (simp add: DayFromYear_def a_def b_def c_def)
  ultimately show ?thesis by simp
qed

lemma YearFromDay_bounds:
  "DayFromYear (YearFromDay d) \<le> d \<and> d < DayFromYear (YearFromDay d + 1)"
proof -
  define q where "q = (400 * d) div 146097"
  define y where "y = 1970 + q"
  have "146097 * q \<le> 400 * d \<and> 400 * d < 146097 * q + 146097"
    using div_bounds[of 146097 "400 * d"] by (simp add: q_def)
  then have a: "146097 * (y - 1970) \<le> 400 * d" "400 * d < 146097 * (y - 1970) + 146097"
    unfolding y_def by simp_all
  have l: "DayFromYear (y - 1) \<le> d" using DayFromYear_upper[of "y - 1"] a by simp
  have u: "d < DayFromYear (y + 2)" using DayFromYear_lower[of "y + 2"] a by simp
  have e: "y + 1 + 1 = y + 2" "y - 1 + 1 = y" by simp_all
  have "YearFromDay d = (if d < DayFromYear y then y - 1
         else if DayFromYear (y + 1) \<le> d then y + 1 else y)"
    by (simp add: YearFromDay_def y_def q_def Let_def)
  then show ?thesis
    using l u by (simp add: e)
qed

lemma div_succ:
  fixes x k :: int
  assumes "1 < k"
  shows "(x + 1) div k = x div k + (if (x + 1) mod k = 0 then 1 else 0)"
proof (cases "(x + 1) mod k = 0")
  case True
  define q where "q = (x + 1) div k"
  have "x + 1 = k * q" using True mult_div_mod_eq[of k "x + 1"] by (simp add: q_def)
  then have "x = k * (q - 1) + (k - 1)" by (simp add: algebra_simps)
  then have "x div k = q - 1"
    using assms by (intro int_div_pos_eq[where r = "k - 1"]) simp_all
  then show ?thesis using True by (simp add: q_def)
next
  case False
  define q r where "q = (x + 1) div k" and "r = (x + 1) mod k"
  have k: "0 < k" using assms by simp
  have "0 \<le> r" "r \<noteq> 0" using False pos_mod_sign[OF k, of "x + 1"] by (simp_all add: r_def)
  then have r0: "0 < r" by simp
  have r1: "r < k" using pos_mod_bound[OF k, of "x + 1"] by (simp add: r_def)
  note r = r0 r1
  have "x + 1 = k * q + r" using mult_div_mod_eq[of k "x + 1"] by (simp add: q_def r_def)
  then have "x = k * q + (r - 1)" by simp
  then have "x div k = q"
    using r by (intro int_div_pos_eq[where r = "r - 1"]) simp_all
  then show ?thesis using False by (simp add: q_def)
qed

lemma DayFromYear_Suc: "DayFromYear (y + 1) = DayFromYear y + DaysInYear y"
proof -
  have a: "(y + 1 - 1969) div 4 = (y - 1969) div 4 + (if y mod 4 = 0 then 1 else 0)"
  proof -
    have "(y - 1968) mod 4 = (y + 4 * (-492)) mod 4" by simp
    also have "\<dots> = y mod 4" by (rule mod_mult_self2)
    finally have "(y - 1968) mod 4 = y mod 4" .
    then show ?thesis using div_succ[of 4 "y - 1969"] by simp
  qed
  have b: "(y + 1 - 1901) div 100 = (y - 1901) div 100 + (if y mod 100 = 0 then 1 else 0)"
  proof -
    have "(y - 1900) mod 100 = (y + 100 * (-19)) mod 100" by simp
    also have "\<dots> = y mod 100" by (rule mod_mult_self2)
    finally have "(y - 1900) mod 100 = y mod 100" .
    then show ?thesis using div_succ[of 100 "y - 1901"] by simp
  qed
  have c: "(y + 1 - 1601) div 400 = (y - 1601) div 400 + (if y mod 400 = 0 then 1 else 0)"
  proof -
    have "(y - 1600) mod 400 = (y + 400 * (-4)) mod 400" by simp
    also have "\<dots> = y mod 400" by (rule mod_mult_self2)
    finally have "(y - 1600) mod 400 = y mod 400" .
    then show ?thesis using div_succ[of 400 "y - 1601"] by simp
  qed
  have d1: "y mod 100 = 0" if "y mod 400 = 0"
  proof -
    have "(400::int) = 100 * 4" by simp
    then have "(100::int) dvd 400" by (metis dvd_triv_left)
    then show ?thesis using that by (meson dvd_trans mod_eq_0_iff_dvd)
  qed
  have d2: "y mod 4 = 0" if "y mod 100 = 0"
  proof -
    have "(100::int) = 4 * 25" by simp
    then have "(4::int) dvd 100" by (metis dvd_triv_left)
    then show ?thesis using that by (meson dvd_trans mod_eq_0_iff_dvd)
  qed
  show ?thesis
    unfolding DayFromYear_def DaysInYear_def a b c using d1 d2 by auto
qed

lemma DaysInYear_pos: "365 \<le> DaysInYear y" "DaysInYear y \<le> 366"
  by (simp_all add: DaysInYear_def)

lemma DayFromYear_less_step: "DayFromYear y < DayFromYear (y + 1)"
  using DayFromYear_Suc[of y] DaysInYear_pos(1)[of y] by simp

lemma DayFromYear_mono: "a \<le> b \<Longrightarrow> DayFromYear a \<le> DayFromYear b"
proof (induction b rule: int_ge_induct)
  case base
  show ?case by simp
next
  case (step i)
  then show ?case using DayFromYear_less_step[of i] by simp
qed

lemma YearFromDay_unique:
  assumes "DayFromYear y \<le> d" "d < DayFromYear (y + 1)"
  shows "YearFromDay d = y"
proof -
  let ?r = "YearFromDay d"
  have b: "DayFromYear ?r \<le> d" "d < DayFromYear (?r + 1)"
    using YearFromDay_bounds[of d] by simp_all
  have "\<not> ?r < y"
  proof
    assume "?r < y"
    then have "DayFromYear (?r + 1) \<le> DayFromYear y" by (intro DayFromYear_mono) simp
    with b assms show False by simp
  qed
  moreover have "\<not> y < ?r"
  proof
    assume "y < ?r"
    then have "DayFromYear (y + 1) \<le> DayFromYear ?r" by (intro DayFromYear_mono) simp
    with b assms show False by simp
  qed
  ultimately show ?thesis by simp
qed

lemma js_rem_positive:
  assumes "0 < n"
  shows "js_rem (js_rem a n + n) n = a mod n"
proof (cases "0 \<le> a")
  case True
  then have "js_rem a n = a mod n" using assms by (simp add: js_rem_def smod_mod_positive)
  moreover have "0 \<le> a mod n + n" using assms by (simp add: add_nonneg_nonneg)
  ultimately show ?thesis using assms by (simp add: js_rem_def smod_mod_positive)
next
  case False
  then have neg: "a < 0" by simp
  have r: "js_rem a n = - ((- a) mod n)"
    using neg assms by (simp add: js_rem_def signed_modulo_int_def)
  have "(- a) mod n < n" using assms by simp
  then have nn: "0 \<le> n - (- a) mod n" by simp
  have "js_rem (js_rem a n + n) n = js_rem (n - (- a) mod n) n"
    by (simp add: r)
  also have "\<dots> = (n - (- a) mod n) mod n"
    using nn assms by (simp add: js_rem_def smod_mod_positive)
  also have "\<dots> = (- ((- a) mod n) + n) mod n" by (simp add: algebra_simps)
  also have "\<dots> = (- ((- a) mod n)) mod n" by (rule mod_add_self2)
  also have "\<dots> = (- (- a)) mod n" by (rule mod_minus_eq)
  also have "\<dots> = a mod n" by simp
  finally show ?thesis .
qed

section \<open>Properties of the year pillar\<close>

lemma stem_at:
  assumes "0 \<le> i" "i < 10"
  shows "stemIndexOf (HEAVENLY_STEMS ! nat i) = i"
proof -
  have "i = 0 \<or> i = 1 \<or> i = 2 \<or> i = 3 \<or> i = 4 \<or> i = 5 \<or> i = 6 \<or> i = 7 \<or> i = 8 \<or> i = 9"
    using assms by presburger
  then show ?thesis
    by (elim disjE) (simp_all add: stemIndexOf_def HEAVENLY_STEMS_def)
qed

lemma branch_at:
  assumes "0 \<le> i" "i < 12"
  shows "branchIndexOf (EARTHLY_BRANCHES ! nat i) = i"
proof -
  have "i = 0 \<or> i = 1 \<or> i = 2 \<or> i = 3 \<or> i = 4 \<or> i = 5 \<or> i = 6 \<or> i = 7 \<or> i = 8 \<or> i = 9
        \<or> i = 10 \<or> i = 11"
    using assms by presburger
  then show ?thesis
    by (elim disjE) (simp_all add: branchIndexOf_def EARTHLY_BRANCHES_def)
qed

lemma getYearPillar_stem: "stemIndexOf (stem (getYearPillar y)) = (y - 4) mod 10"
  by (simp add: getYearPillar_def js_rem_positive stem_at)

lemma getYearPillar_branch: "branchIndexOf (branch (getYearPillar y)) = (y - 4) mod 12"
  by (simp add: getYearPillar_def js_rem_positive branch_at)

text \<open>
  C9: for every integer year, the pillar that \<^verbatim>\<open>getYearPillar\<close> returns has the stem of
  index \<open>(y - 4) mod 10\<close> and the branch of index \<open>(y - 4) mod 12\<close>, and the two indices
  have the same parity.
\<close>

theorem getYearPillar_parity:
  "stemIndexOf (stem (getYearPillar y)) = (y - 4) mod 10 \<and>
   branchIndexOf (branch (getYearPillar y)) = (y - 4) mod 12 \<and>
   stemIndexOf (stem (getYearPillar y)) mod 2 = branchIndexOf (branch (getYearPillar y)) mod 2"
proof -
  have "(y - 4) mod 10 mod 2 = (y - 4) mod 2" by (rule mod_mod_cancel) simp
  moreover have "(y - 4) mod 12 mod 2 = (y - 4) mod 2" by (rule mod_mod_cancel) simp
  ultimately show ?thesis by (simp add: getYearPillar_stem getYearPillar_branch)
qed

theorem getYearPillar_parity_witness:
  "stemIndexOf (stem (getYearPillar 1983)) = 9 \<and> branchIndexOf (branch (getYearPillar 1983)) = 11"
  using getYearPillar_parity[of 1983] by simp

lemma findLichunMoment_None:
  "findLichunMoment tza terms y = None \<longleftrightarrow>
     \<not> (\<exists>s\<in>set terms. index s = 2 \<and> getFullYear tza (moment s) = y)"
  by (induction terms) (auto simp: LICHUN_INDEX_def)

lemma findLichunMoment_Some:
  "findLichunMoment tza terms y = Some m \<Longrightarrow>
     \<exists>s\<in>set terms. index s = 2 \<and> getFullYear tza (moment s) = y \<and> moment s = m"
  by (induction terms) (auto simp: LICHUN_INDEX_def split: if_splits)

text \<open>
  What \<^verbatim>\<open>calculateYearPillar\<close> computes, in terms of the year that \<^verbatim>\<open>getFullYear\<close> reports
  in the runtime's local time: let the list contain a Start-of-Spring term (index 2) whose
  moment lies in the local year \<open>Y\<close> of the instant \<open>t\<close>, all such terms having the same
  moment.  Then the result is the pillar of \<open>Y\<close> when \<open>t\<close> is at or after that moment and of
  \<open>Y - 1\<close> when \<open>t\<close> is before it, with stem index \<open>(effectiveYear - 4) mod 10\<close> and branch
  index \<open>(effectiveYear - 4) mod 12\<close>.
\<close>

lemma calculateYearPillar_local_year:
  assumes "st \<in> set terms" and "index st = 2"
    and "getFullYear tza (moment st) = getFullYear tza t"
    and "\<forall>s\<in>set terms. index s = 2 \<and> getFullYear tza (moment s) = getFullYear tza t
           \<longrightarrow> moment s = moment st"
  shows "let Y = getFullYear tza t;
             effectiveYear = (if moment st \<le> t then Y else Y - 1);
             p = getYearPillar effectiveYear
         in calculateYearPillar tza t terms = Inr p \<and>
            stemIndexOf (stem p) = (effectiveYear - 4) mod 10 \<and>
            branchIndexOf (branch p) = (effectiveYear - 4) mod 12"
proof -
  have "findLichunMoment tza terms (getFullYear tza t) \<noteq> None"
    using assms(1-3) by (auto simp: findLichunMoment_None)
  then obtain m where m: "findLichunMoment tza terms (getFullYear tza t) = Some m" by auto
  from findLichunMoment_Some[OF m] assms(4) have "m = moment st" by auto
  with m show ?thesis
    by (simp add: calculateYearPillar_def Let_def getYearPillar_stem getYearPillar_branch)
qed

lemma getFullYear_utc: "getFullYear (\<lambda>t. 0) t = getUTCFullYear t"
  by (simp add: getFullYear_def getUTCFullYear_def)

text \<open>
  In a runtime whose local time is UTC the local year is the year of the UTC fields, which
  is the civil year of the module's convention (a \<^verbatim>\<open>Date\<close> stores the Beijing civil time in
  its UTC fields).
\<close>

lemma calculateYearPillar_utc_runtime:
  assumes "st \<in> set terms" and "index st = 2"
    and "getUTCFullYear (moment st) = getUTCFullYear t"
    and "\<forall>s\<in>set terms. index s = 2 \<and> getUTCFullYear (moment s) = getUTCFullYear t
           \<longrightarrow> moment s = moment st"
  shows "calculateYearPillar (\<lambda>t. 0) t terms =
           Inr (getYearPillar (if moment st \<le> t then getUTCFullYear t else getUTCFullYear t - 1))"
proof -
  have a: "getFullYear (\<lambda>t. 0) (moment st) = getFullYear (\<lambda>t. 0) t"
    using assms(3) by (simp only: getFullYear_utc)
  have b: "\<forall>s\<in>set terms. index s = 2 \<and>
             getFullYear (\<lambda>t. 0) (moment s) = getFullYear (\<lambda>t. 0) t
             \<longrightarrow> moment s = moment st"
    using assms(4) by (simp only: getFullYear_utc)
  from calculateYearPillar_local_year[OF assms(1,2) a b] show ?thesis
    by (simp add: Let_def getFullYear_utc)
qed

lemma pillars_1983_1984:
  "getYearPillar 1983 = \<lparr>stem = Gui, branch = Hai\<rparr>"
  "getYearPillar 1984 = \<lparr>stem = Jia, branch = Zi\<rparr>"
  by (simp_all add: getYearPillar_def js_rem_positive HEAVENLY_STEMS_def EARTHLY_BRANCHES_def)

text \<open>
  C2: the claim speaks of the civil year of \<open>t\<close>, the year of its UTC fields.  The code
  reads the year with \<^verbatim>\<open>getFullYear\<close>, in local time.  In a runtime at UTC+8 the instant
  1984-12-31 20:00 has civil year 1984, the list holds the Start-of-Spring of 1984, and the
  instant is after it, so the claim gives the pillar of 1984; the code looks for a
  Start-of-Spring of 1985 and throws.
\<close>

theorem calculateYearPillar_civil_year_defect:
  "getUTCFullYear (UTC_value 1984 11 31 20 0 0) = 1984 \<and>
   getUTCFullYear (UTC_value 1984 1 4 23 18 50) = 1984 \<and>
   UTC_value 1984 1 4 23 18 50 \<le> UTC_value 1984 11 31 20 0 0 \<and>
   calculateYearPillar (\<lambda>t. 28800000) (UTC_value 1984 11 31 20 0 0)
     [\<lparr>name = ''lichun'', index = 2, moment = UTC_value 1984 1 4 23 18 50, longitude = 315\<rparr>]
     = Inl (LichunNotFound 1985) \<and>
   calculateYearPillar (\<lambda>t. 0) (UTC_value 1984 11 31 20 0 0)
     [\<lparr>name = ''lichun'', index = 2, moment = UTC_value 1984 1 4 23 18 50, longitude = 315\<rparr>]
     = Inr \<lparr>stem = Jia, branch = Zi\<rparr>"
proof -
  have c1: "getUTCFullYear (UTC_value 1984 11 31 20 0 0) = 1984"
    by code_simp
  have c2: "getUTCFullYear (UTC_value 1984 1 4 23 18 50) = 1984"
    by code_simp
  have c3: "UTC_value 1984 1 4 23 18 50 \<le> UTC_value 1984 11 31 20 0 0"
    by code_simp
  have l1: "getFullYear (\<lambda>t. 28800000) (UTC_value 1984 11 31 20 0 0) = 1985"
    by code_simp
  have l2: "getFullYear (\<lambda>t. 28800000) (UTC_value 1984 1 4 23 18 50) = 1984"
    by code_simp
  have c4: "calculateYearPillar (\<lambda>t. 28800000) (UTC_value 1984 11 31 20 0 0)
     [\<lparr>name = ''lichun'', index = 2, moment = UTC_value 1984 1 4 23 18 50, longitude = 315\<rparr>]
     = Inl (LichunNotFound 1985)"
    by (simp add: calculateYearPillar_def Let_def l1 l2 LICHUN_INDEX_def)
  have c5: "calculateYearPillar (\<lambda>t. 0) (UTC_value 1984 11 31 20 0 0)
     [\<lparr>name = ''lichun'', index = 2, moment = UTC_value 1984 1 4 23 18 50, longitude = 315\<rparr>]
     = Inr \<lparr>stem = Jia, branch = Zi\<rparr>"
    by (simp add: calculateYearPillar_def Let_def getFullYear_utc c1 c2 c3 LICHUN_INDEX_def
          pillars_1983_1984)
  from c1 c2 c3 c4 c5 show ?thesis by simp
qed

text \<open>
  \<^verbatim>\<open>calculateYearPillar\<close> throws exactly when the list holds no term of index 2 whose moment
  falls in the local year of the instant, the year that \<^verbatim>\<open>getFullYear\<close> reports.
\<close>

lemma calculateYearPillar_throws_local_year:
  "(\<exists>e. calculateYearPillar tza t terms = Inl e) \<longleftrightarrow>
     \<not> (\<exists>s\<in>set terms. index s = 2 \<and> getFullYear tza (moment s) = getFullYear tza t)"
proof (cases "findLichunMoment tza terms (getFullYear tza t)")
  case None
  then show ?thesis
    using findLichunMoment_None[of tza terms "getFullYear tza t"]
    by (simp add: calculateYearPillar_def Let_def)
next
  case (Some m)
  then show ?thesis
    using findLichunMoment_None[of tza terms "getFullYear tza t"]
    by (simp add: calculateYearPillar_def Let_def)
qed

text \<open>
  C10: with the civil year of the claim, the year of the UTC fields, the equivalence fails
  in both directions in a runtime at UTC+8, by the same reading of the local year.  The
  instant 1983-12-31 20:00 has civil year 1983 and the list holds only the Start-of-Spring
  of 1984, yet the code returns a pillar; the instant 1984-12-31 16:00 has civil year 1984
  and the list holds the Start-of-Spring of 1984, yet the code throws.
\<close>

theorem calculateYearPillar_throw_condition_defect:
  "getUTCFullYear (UTC_value 1983 11 31 20 0 0) = 1983 \<and>
   getUTCFullYear (UTC_value 1984 11 31 16 0 0) = 1984 \<and>
   getUTCFullYear (UTC_value 1984 1 4 23 18 50) = 1984 \<and>
   calculateYearPillar (\<lambda>t. 28800000) (UTC_value 1983 11 31 20 0 0)
     [\<lparr>name = ''lichun'', index = 2, moment = UTC_value 1984 1 4 23 18 50, longitude = 315\<rparr>]
     = Inr \<lparr>stem = Gui, branch = Hai\<rparr> \<and>
   calculateYearPillar (\<lambda>t. 28800000) (UTC_value 1984 11 31 16 0 0)
     [\<lparr>name = ''lichun'', index = 2, moment = UTC_value 1984 1 4 23 18 50, longitude = 315\<rparr>]
     = Inl (LichunNotFound 1985)"
proof -
  have c1: "getUTCFullYear (UTC_value 1983 11 31 20 0 0) = 1983"
    by code_simp
  have c2: "getUTCFullYear (UTC_value 1984 11 31 16 0 0) = 1984"
    by code_simp
  have c3: "getUTCFullYear (UTC_value 1984 1 4 23 18 50) = 1984"
    by code_simp
  have l1: "getFullYear (\<lambda>t. 28800000) (UTC_value 1983 11 31 20 0 0) = 1984"
    by code_simp
  have l2: "getFullYear (\<lambda>t. 28800000) (UTC_value 1984 1 4 23 18 50) = 1984"
    by code_simp
  have l3: "getFullYear (\<lambda>t. 28800000) (UTC_value 1984 11 31 16 0 0) = 1985"
    by code_simp
  have before: "\<not> UTC_value 1984 1 4 23 18 50 \<le> UTC_value 1983 11 31 20 0 0"
    by code_simp
  have c4: "calculateYearPillar (\<lambda>t. 28800000) (UTC_value 1983 11 31 20 0 0)
     [\<lparr>name = ''lichun'', index = 2, moment = UTC_value 1984 1 4 23 18 50, longitude = 315\<rparr>]
     = Inr \<lparr>stem = Gui, branch = Hai\<rparr>"
    by (simp add: calculateYearPillar_def Let_def l1 l2 LICHUN_INDEX_def before pillars_1983_1984)
  have c5: "calculateYearPillar (\<lambda>t. 28800000) (UTC_value 1984 11 31 16 0 0)
     [\<lparr>name = ''lichun'', index = 2, moment = UTC_value 1984 1 4 23 18 50, longitude = 315\<rparr>]
     = Inl (LichunNotFound 1985)"
    by (simp add: calculateYearPillar_def Let_def l2 l3 LICHUN_INDEX_def)
  from c1 c2 c3 c4 c5 show ?thesis by simp
qed

section \<open>Properties of the daylight-saving correction\<close>

lemma Day_mono: "a \<le> b \<Longrightarrow> Day a \<le> Day b"
  by (simp add: Day_def msPerDay_def zdiv_mono1)

lemma Day_mult: "Day (d * msPerDay) = d"
  by (simp add: Day_def msPerDay_def)

lemma YearFromDay_ge: "DayFromYear y \<le> d \<Longrightarrow> y \<le> YearFromDay d"
proof (rule ccontr)
  assume a: "DayFromYear y \<le> d" and "\<not> y \<le> YearFromDay d"
  then have "YearFromDay d + 1 \<le> y" by simp
  then have "DayFromYear (YearFromDay d + 1) \<le> DayFromYear y" by (rule DayFromYear_mono)
  with a YearFromDay_bounds[of d] show False by simp
qed

lemma YearFromDay_less: "d < DayFromYear y \<Longrightarrow> YearFromDay d < y"
proof (rule ccontr)
  assume a: "d < DayFromYear y" and "\<not> YearFromDay d < y"
  then have "y \<le> YearFromDay d" by simp
  then have "DayFromYear y \<le> DayFromYear (YearFromDay d)" by (rule DayFromYear_mono)
  with a YearFromDay_bounds[of d] show False by simp
qed

lemma YearFromTime_eq:
  assumes "DayFromYear y * msPerDay \<le> t" "t < DayFromYear (y + 1) * msPerDay"
  shows "YearFromTime t = y"
proof -
  have "Day (DayFromYear y * msPerDay) \<le> Day t" using assms(1) by (rule Day_mono)
  then have l: "DayFromYear y \<le> Day t" by (simp add: Day_mult)
  have "Day t < DayFromYear (y + 1)"
    using assms(2) by (simp add: Day_def msPerDay_def div_less_iff_less_mult)
  with l show ?thesis unfolding YearFromTime_def by (intro YearFromDay_unique)
qed

lemma window_year:
  assumes "e \<in> set DST_TABLE" "estart e \<le> d" "d < eend e"
  shows "getUTCFullYear d = eyear e"
proof -
  have "DayFromYear (eyear e) * msPerDay \<le> estart e \<and> eend e \<le> DayFromYear (eyear e + 1) * msPerDay"
    using assms(1)
    by (auto simp: DST_TABLE_def UTC_value_def MakeDay_def DayFromYear_def DaysInYear_def
          monthStart_def msPerDay_def)
  then show ?thesis
    unfolding getUTCFullYear_def using assms(2,3) by (intro YearFromTime_eq) simp_all
qed

lemma window_bounds:
  assumes "e \<in> set DST_TABLE" "estart e \<le> d" "d < eend e"
  shows "0 \<le> d - 3600000 \<and> d \<le> 8640000000000000"
proof -
  have "3600000 \<le> estart e \<and> eend e \<le> 8640000000000000"
    using assms(1)
    by (auto simp: DST_TABLE_def UTC_value_def MakeDay_def DayFromYear_def DaysInYear_def
          monthStart_def msPerDay_def)
  then show ?thesis using assms(2,3) by simp
qed

lemma isDSTActive_own_year: "isDSTActive d \<longleftrightarrow> inOwnYearDSTWindow d"
  by (auto simp: isDSTActive_def inOwnYearDSTWindow_def DST_TABLE_def Let_def)

lemma inSome_iff_inOwn: "inSomeDSTWindow d \<longleftrightarrow> inOwnYearDSTWindow d"
proof
  assume "inSomeDSTWindow d"
  then obtain e where e: "e \<in> set DST_TABLE" "estart e \<le> d" "d < eend e"
    by (auto simp: inSomeDSTWindow_def list_ex_iff)
  from window_year[OF e] e show "inOwnYearDSTWindow d"
    by (auto simp: inOwnYearDSTWindow_def list_ex_iff)
next
  assume "inOwnYearDSTWindow d"
  then show "inSomeDSTWindow d"
    by (auto simp: inOwnYearDSTWindow_def inSomeDSTWindow_def list_ex_iff)
qed

text \<open>
  C6: \<^verbatim>\<open>applyDSTCorrection\<close> returns the instant minus 3,600,000 ms exactly when the flag
  is set and the instant lies in some window of the table, and returns the instant
  unchanged otherwise; \<^verbatim>\<open>isDSTActive\<close> holds exactly when the instant lies in the
  half-open window \<open>[start, end)\<close> that the table gives for the instant's year.
\<close>

theorem applyDSTCorrection_window:
  "(applyDSTCorrection d c = Some (d - 3600000) \<longleftrightarrow> c \<and> inSomeDSTWindow d) \<and>
   (\<not> (c \<and> inSomeDSTWindow d) \<longrightarrow> applyDSTCorrection d c = Some d) \<and>
   (isDSTActive d \<longleftrightarrow> inOwnYearDSTWindow d)"
proof (cases "c \<and> inSomeDSTWindow d")
  case True
  then obtain e where e: "e \<in> set DST_TABLE" "estart e \<le> d" "d < eend e"
    by (auto simp: inSomeDSTWindow_def list_ex_iff)
  have "TimeClip (d - 3600000) = Some (d - 3600000)"
    using window_bounds[OF e] by (simp add: TimeClip_def)
  with True show ?thesis
    by (simp add: applyDSTCorrection_def isDSTActive_own_year inSome_iff_inOwn)
next
  case False
  then show ?thesis
    by (auto simp: applyDSTCorrection_def isDSTActive_own_year inSome_iff_inOwn)
qed

theorem applyDSTCorrection_window_witness:
  "inSomeDSTWindow 520615800000 \<and>
   applyDSTCorrection 520615800000 True = Some 520612200000 \<and>
   applyDSTCorrection 520615800000 False = Some 520615800000"
proof -
  have w: "inSomeDSTWindow 520615800000"
    by (simp add: inSomeDSTWindow_def DST_TABLE_def UTC_value_def MakeDay_def DayFromYear_def
          DaysInYear_def monthStart_def msPerDay_def)
  show ?thesis
    using applyDSTCorrection_window[of 520615800000 True]
      applyDSTCorrection_window[of 520615800000 False] w
    by simp
qed

section \<open>Properties of the solar-term routine\<close>

lemma d_op_NaN [simp]: "d_op f None b = None" "d_op f a None = None"
  by (simp_all add: d_op_def split: option.splits)

lemma d_fun_NaN [simp]: "d_fun f None = None"
  by (simp add: d_fun_def)

lemma d_lt_NaN [simp]: "d_lt fp None b = False" "d_lt fp a None = False"
  by (simp_all add: d_lt_def split: option.splits)

lemma d_gt_NaN [simp]: "d_gt fp None b = False" "d_gt fp a None = False"
  by (simp_all add: d_gt_def)










section \<open>Properties of the lunisolar calendar\<close>

lemma SPRING_FESTIVAL_length: "length SPRING_FESTIVAL = 201"
  by (simp add: SPRING_FESTIVAL_def)

lemma LUNAR_INFO_length: "length LUNAR_INFO = 201"
  by (simp add: LUNAR_INFO_def)

lemma LUNAR_INFO_leap: "list_all (\<lambda>x. x AND 0xf \<le> 12) LUNAR_INFO"
  by (simp add: LUNAR_INFO_def)

lemma MonthFromTime_range: "0 \<le> MonthFromTime x \<and> MonthFromTime x \<le> 11"
  by (simp add: MonthFromTime_def Let_def)

lemma MakeDay_fields: "MakeDay (YearFromTime x) (MonthFromTime x) (DateFromTime x) = Day x"
proof -
  have m: "MonthFromTime x div 12 = 0" "MonthFromTime x mod 12 = MonthFromTime x"
    using MonthFromTime_range[of x] by simp_all
  show ?thesis
    by (simp add: MakeDay_def m DateFromTime_def InLeapYear_def DayWithinYear_def)
qed

lemma Date_UTC_fields:
  assumes "100 \<le> YearFromTime x" "\<bar>Day x * msPerDay\<bar> \<le> 8640000000000000"
  shows "Date_UTC (getUTCFullYear x) (getUTCMonth x) (getUTCDate x) 0 0 0 = Some (Day x * msPerDay)"
  using assms
  by (simp add: Date_UTC_def UTC_value_def getUTCFullYear_def getUTCMonth_def getUTCDate_def
        MakeDay_fields TimeClip_def)

lemma fields_of_day_start:
  "YearFromTime (Day t * msPerDay) = YearFromTime t"
  "MonthFromTime (Day t * msPerDay) = MonthFromTime t"
  "DateFromTime (Day t * msPerDay) = DateFromTime t"
  by (simp_all add: YearFromTime_def MonthFromTime_def DateFromTime_def DayWithinYear_def
        InLeapYear_def Day_mult)

lemma sameDate_day_start: "sameDate (Day t * msPerDay) t"
  by (simp add: sameDate_def getUTCFullYear_def getUTCMonth_def getUTCDate_def fields_of_day_start)

lemma SPRING_FESTIVAL_codes:
  "list_all (\<lambda>c. (119 \<le> c \<and> c \<le> 131) \<or> (201 \<le> c \<and> c \<le> 220)) SPRING_FESTIVAL"
  by (simp add: SPRING_FESTIVAL_def)

lemma DayFromYear_1900_2100:
  assumes "1900 \<le> y" "y \<le> 2100"
  shows "- 25567 \<le> DayFromYear y \<and> DayFromYear y \<le> 47482"
proof -
  have "DayFromYear 1900 \<le> DayFromYear y" using assms(1) by (rule DayFromYear_mono)
  moreover have "DayFromYear y \<le> DayFromYear 2100" using assms(2) by (rule DayFromYear_mono)
  moreover have "DayFromYear 1900 = - 25567" "DayFromYear 2100 = 47482"
    by (simp_all add: DayFromYear_def)
  ultimately show ?thesis by simp
qed

lemma getSpringFestivalDate_Some:
  assumes "1900 \<le> y" "y \<le> 2100"
  shows "\<exists>s. getSpringFestivalDate y = Some (s * msPerDay) \<and>
             DayFromYear y + 18 \<le> s \<and> s \<le> DayFromYear y + 50"
proof -
  define c where "c = SPRING_FESTIVAL ! nat (y - 1900)"
  have i: "nat (y - 1900) < length SPRING_FESTIVAL"
    using assms by (simp add: SPRING_FESTIVAL_length)
  have g: "arr_get SPRING_FESTIVAL (y - 1900) = Some c"
    using assms by (simp add: arr_get_def SPRING_FESTIVAL_length c_def)
  have c: "(119 \<le> c \<and> c \<le> 131) \<or> (201 \<le> c \<and> c \<le> 220)"
    using SPRING_FESTIVAL_codes i unfolding c_def list_all_length by blast
  have r: "js_rem c 100 = c mod 100"
    using c by (auto simp: js_rem_def smod_mod_positive)
  define s where "s = MakeDay y (c div 100 - 1) (c mod 100)"
  have v: "getSpringFestivalDate y = TimeClip (s * msPerDay)"
    using assms by (simp add: getSpringFestivalDate_def g r Let_def Date_UTC_def UTC_value_def s_def)
  have "DayFromYear y + 18 \<le> s \<and> s \<le> DayFromYear y + 50"
  proof (cases "c \<le> 131")
    case True
    then have "c div 100 = 1" "c mod 100 = c - 100" using c by presburger+
    then show ?thesis using c True by (simp add: s_def MakeDay_def monthStart_def)
  next
    case False
    then have "c div 100 = 2" "c mod 100 = c - 200" using c by presburger+
    then show ?thesis using c False by (simp add: s_def MakeDay_def monthStart_def)
  qed
  moreover from this have "\<bar>s * msPerDay\<bar> \<le> 8640000000000000"
    using DayFromYear_1900_2100[OF assms] by (simp add: msPerDay_def abs_le_iff)
  then have "TimeClip (s * msPerDay) = Some (s * msPerDay)"
    by (simp add: TimeClip_def)
  ultimately show ?thesis using v by auto
qed

lemma getMonthDays_range: "getMonthDays y m = 29 \<or> getMonthDays y m = 30"
  by (simp add: getMonthDays_def)

lemma getLeapMonthDays_range:
  "getLeapMonthDays y = 0 \<or> getLeapMonthDays y = 29 \<or> getLeapMonthDays y = 30"
  by (simp add: getLeapMonthDays_def)

lemma getLeapMonthDays_zero: "getLeapMonthInternal y = 0 \<Longrightarrow> getLeapMonthDays y = 0"
  by (simp add: getLeapMonthDays_def)

lemma getLeapMonthDays_leap:
  "getLeapMonthInternal y \<noteq> 0 \<Longrightarrow> getLeapMonthDays y = 29 \<or> getLeapMonthDays y = 30"
  by (simp add: getLeapMonthDays_def)

lemma getLeapMonthInternal_range:
  "0 \<le> getLeapMonthInternal y \<and> getLeapMonthInternal y \<le> 12"
proof (cases "0 \<le> y - 1900 \<and> y - 1900 < 201")
  case True
  then have "nat (y - 1900) < 201" by linarith
  then have "nat (y - 1900) < length LUNAR_INFO" by (simp add: LUNAR_INFO_length)
  then have "LUNAR_INFO ! nat (y - 1900) AND 0xf \<le> 12"
    using LUNAR_INFO_leap unfolding list_all_length by blast
  then show ?thesis using True
    by (simp add: getLeapMonthInternal_def arr_get_def LUNAR_INFO_length js_and_def)
next
  case False
  then show ?thesis
    by (auto simp: getLeapMonthInternal_def arr_get_def LUNAR_INFO_length js_and_def)
qed

lemma sumLoop_Cons:
  "sumLoop y l (m # ms) acc =
     sumLoop y l ms (acc + (getMonthDays y m + (if l = m then getLeapMonthDays y else 0)))"
  by (simp add: Let_def add.assoc)

lemma sumLoop_acc: "sumLoop y l ms acc = acc + sumLoop y l ms 0"
proof (induction ms arbitrary: acc)
  case Nil
  show ?case by simp
next
  case (Cons m ms)
  define d where "d = getMonthDays y m + (if l = m then getLeapMonthDays y else 0)"
  have "sumLoop y l (m # ms) acc = sumLoop y l ms (acc + d)"
    unfolding d_def by (rule sumLoop_Cons)
  also have "\<dots> = acc + d + sumLoop y l ms 0" by (rule Cons.IH)
  finally have 1: "sumLoop y l (m # ms) acc = acc + d + sumLoop y l ms 0" .
  have "sumLoop y l (m # ms) 0 = sumLoop y l ms (0 + d)"
    unfolding d_def by (rule sumLoop_Cons)
  also have "\<dots> = 0 + d + sumLoop y l ms 0" by (rule Cons.IH)
  finally have 2: "sumLoop y l (m # ms) 0 = d + sumLoop y l ms 0" by simp
  show ?case using 1 2 by simp
qed

lemma sumLoop_upto_rec:
  assumes "a \<le> b"
  shows "sumLoop y l [a..b] 0 =
           getMonthDays y a + (if l = a then getLeapMonthDays y else 0) + sumLoop y l [a + 1..b] 0"
proof -
  define d where "d = getMonthDays y a + (if l = a then getLeapMonthDays y else 0)"
  have "[a..b] = a # [a + 1..b]" using assms by (simp add: upto_rec1)
  then have "sumLoop y l [a..b] 0 = sumLoop y l [a + 1..b] (0 + d)"
    unfolding d_def by (simp only: sumLoop_Cons)
  also have "\<dots> = 0 + d + sumLoop y l [a + 1..b] 0" by (rule sumLoop_acc)
  finally show ?thesis by (simp add: d_def)
qed

lemma sumLoop_nonneg: "0 \<le> sumLoop y l [a..b] 0"
proof (induction "nat (b + 1 - a)" arbitrary: a)
  case 0
  then have "[a..b] = []" by simp
  then show ?case by simp
next
  case (Suc n)
  then have ab: "a \<le> b" by simp
  have "0 \<le> sumLoop y l [a + 1..b] 0" using Suc by simp
  then show ?case
    using sumLoop_upto_rec[OF ab, of y l] getMonthDays_range[of y a] getLeapMonthDays_range[of y]
    by auto
qed

lemma monthLoop_found:
  assumes "0 \<le> off" "off < sumLoop y l [a..b] 0"
  shows "\<exists>m isLeap r. monthLoop y l [a..b] (Some off) = (m, isLeap, Some r) \<and>
           a \<le> m \<and> m \<le> b \<and> 0 \<le> r \<and>
           r < (if isLeap then getLeapMonthDays y else getMonthDays y m) \<and>
           (isLeap \<longrightarrow> l = m) \<and>
           off = sumLoop y l [a..m - 1] 0 + (if isLeap then getMonthDays y m else 0) + r"
  using assms
proof (induction "nat (b + 1 - a)" arbitrary: a off)
  case 0
  then have "[a..b] = []" by simp
  with 0 show ?case by simp
next
  case (Suc n)
  have ab: "a \<le> b" using Suc.hyps(2) by simp
  have list: "[a..b] = a # [a + 1..b]" using ab by (simp add: upto_rec1)
  have n: "n = nat (b + 1 - (a + 1))" using Suc.hyps(2) by simp
  have empty: "sumLoop y l [a..a - 1] 0 = 0" by simp
  note total = sumLoop_upto_rec[OF ab, of y l]
  show ?case
  proof (cases "off < getMonthDays y a")
    case True
    have "monthLoop y l [a..b] (Some off) = (a, False, Some off)"
      using True by (simp add: list js_lt_def Let_def)
    then show ?thesis
      using True Suc.prems(1) ab empty
      by (intro exI[of _ a] exI[of _ False] exI[of _ off]) simp
  next
    case F1: False
    define off1 where "off1 = off - getMonthDays y a"
    have off1: "0 \<le> off1" using F1 by (simp add: off1_def)
    show ?thesis
    proof (cases "l = a")
      case L: True
      show ?thesis
      proof (cases "off1 < getLeapMonthDays y")
        case True
        have "monthLoop y l [a..b] (Some off) = (a, True, Some off1)"
          using F1 L True by (simp add: list js_lt_def js_sub_def Let_def off1_def)
        then show ?thesis
          using True L off1 ab empty
          by (intro exI[of _ a] exI[of _ True] exI[of _ off1]) (simp add: off1_def)
      next
        case F2: False
        define off2 where "off2 = off1 - getLeapMonthDays y"
        have off2: "0 \<le> off2" using F2 by (simp add: off2_def)
        have lt: "off2 < sumLoop y l [a + 1..b] 0"
          using Suc.prems(2) total L by (simp add: off2_def off1_def)
        from Suc.hyps(1)[OF n off2 lt] obtain m isLeap r where
          r: "monthLoop y l [a + 1..b] (Some off2) = (m, isLeap, Some r)"
             "a + 1 \<le> m" "m \<le> b" "0 \<le> r"
             "r < (if isLeap then getLeapMonthDays y else getMonthDays y m)"
             "isLeap \<longrightarrow> l = m"
             "off2 = sumLoop y l [a + 1..m - 1] 0 + (if isLeap then getMonthDays y m else 0) + r"
          by blast
        have am: "a \<le> m - 1" using r(2) by simp
        have "monthLoop y l [a..b] (Some off) = (m, isLeap, Some r)"
          using F1 F2 L r(1) by (simp add: list js_lt_def js_sub_def Let_def off1_def off2_def)
        moreover have "off = sumLoop y l [a..m - 1] 0 + (if isLeap then getMonthDays y m else 0) + r"
          using r(7) sumLoop_upto_rec[OF am, of y l] L by (simp add: off2_def off1_def)
        ultimately show ?thesis using r(2-6) by auto
      qed
    next
      case NL: False
      have lt: "off1 < sumLoop y l [a + 1..b] 0"
        using Suc.prems(2) total NL by (simp add: off1_def)
      from Suc.hyps(1)[OF n off1 lt] obtain m isLeap r where
        r: "monthLoop y l [a + 1..b] (Some off1) = (m, isLeap, Some r)"
           "a + 1 \<le> m" "m \<le> b" "0 \<le> r"
           "r < (if isLeap then getLeapMonthDays y else getMonthDays y m)"
           "isLeap \<longrightarrow> l = m"
           "off1 = sumLoop y l [a + 1..m - 1] 0 + (if isLeap then getMonthDays y m else 0) + r"
        by blast
      have am: "a \<le> m - 1" using r(2) by simp
      have "monthLoop y l [a..b] (Some off) = (m, isLeap, Some r)"
        using F1 NL r(1) by (simp add: list js_lt_def js_sub_def Let_def off1_def)
      moreover have "off = sumLoop y l [a..m - 1] 0 + (if isLeap then getMonthDays y m else 0) + r"
        using r(7) sumLoop_upto_rec[OF am, of y l] NL by (simp add: off1_def)
      ultimately show ?thesis using r(2-6) by auto
    qed
  qed
qed

lemma months_1_12: "[1..12] = [1, 2, 3, 4, 5, 6, 7, 8, 9, 10, 11, 12 :: int]"
  by (simp add: upto_rec1)

lemma sumLoop_year:
  "sumLoop y (getLeapMonthInternal y) [1..12] 0 = getLunarYearDays y"
proof -
  define l where "l = getLeapMonthInternal y"
  have "l = 0 \<or> l = 1 \<or> l = 2 \<or> l = 3 \<or> l = 4 \<or> l = 5 \<or> l = 6 \<or> l = 7 \<or> l = 8 \<or> l = 9
        \<or> l = 10 \<or> l = 11 \<or> l = 12"
    using getLeapMonthInternal_range[of y] unfolding l_def by presburger
  moreover have "l = 0 \<Longrightarrow> getLeapMonthDays y = 0"
    unfolding l_def by (rule getLeapMonthDays_zero)
  ultimately show ?thesis
    unfolding l_def[symmetric] getLunarYearDays_def
    by (elim disjE) (simp_all add: Let_def months_1_12)
qed

lemma solarToLunar_alt:
  "solarToLunar t =
     (if getUTCFullYear t < 1900 \<or> getUTCFullYear t > 2100 then Inl SolarYearOutOfRange
      else if js_lt (lunarOffsetOf t) (Some 0) then Inl NegativeOffset
      else (case monthLoop (lunarYearOf t) (getLeapMonthInternal (lunarYearOf t)) [1..12]
                   (lunarOffsetOf t) of
              (lunarMonth, isLeap, offset) \<Rightarrow>
                Inr \<lparr>lyear = lunarYearOf t,
                     lmonth = (if lunarMonth = 0 then 12 else lunarMonth),
                     lday = js_add offset (Some 1),
                     isLeapMonth = (if lunarMonth = 0 then False else isLeap)\<rparr>))"
  by (simp add: solarToLunar_def lunarYearOf_def lunarOffsetOf_def Let_def split: prod.splits)

lemma sumLoop_upper: "a \<le> b + 1 \<Longrightarrow> sumLoop y l [a..b] 0 \<le> 60 * (b + 1 - a)"
proof (induction "nat (b + 1 - a)" arbitrary: a)
  case 0
  then have "[a..b] = []" by simp
  with 0 show ?case by simp
next
  case (Suc n)
  have ab: "a \<le> b" using Suc.hyps(2) by simp
  have n: "n = nat (b + 1 - (a + 1))" using Suc.hyps(2) by simp
  have "a + 1 \<le> b + 1" using ab by simp
  from Suc.hyps(1)[OF n this] have "sumLoop y l [a + 1..b] 0 \<le> 60 * (b + 1 - (a + 1))" .
  then show ?case
    using sumLoop_upto_rec[OF ab, of y l] getMonthDays_range[of y a] getLeapMonthDays_range[of y]
    by auto
qed

lemma lunarToSolar_returns:
  assumes y: "1900 \<le> y" "y \<le> 2100" and m: "1 \<le> m" "m \<le> 12" and d: "1 \<le> d" "d \<le> 30"
    and leap: "b \<longrightarrow> getLeapMonthInternal y = m"
    and len: "d \<le> (if b then getLeapMonthDays y else getMonthDays y m)"
    and sf: "getSpringFestivalDate y = Some (s * msPerDay)"
  shows "lunarToSolar \<lparr>lyear = y, lmonth = m, lday = Some d, isLeapMonth = b\<rparr> =
           Inr (Some ((s + (sumLoop y (getLeapMonthInternal y) [1..m - 1] 0
                  + (if b then getMonthDays y m else 0) + (d - 1))) * msPerDay))"
proof -
  define k where "k = sumLoop y (getLeapMonthInternal y) [1..m - 1] 0
                  + (if b then getMonthDays y m else 0) + (d - 1)"
  obtain s' where s': "getSpringFestivalDate y = Some (s' * msPerDay)"
      "DayFromYear y + 18 \<le> s'" "s' \<le> DayFromYear y + 50"
    using getSpringFestivalDate_Some[OF y] by blast
  have ss: "s' = s" using s'(1) sf by (simp add: msPerDay_def)
  have k0: "0 \<le> k"
    using sumLoop_nonneg[of y "getLeapMonthInternal y" 1 "m - 1"] getMonthDays_range[of y m] d
    unfolding k_def by auto
  have "sumLoop y (getLeapMonthInternal y) [1..m - 1] 0 \<le> 60 * (m - 1 + 1 - 1)"
    using m by (intro sumLoop_upper) simp
  also have "\<dots> \<le> 720" using m by simp
  finally have k1: "k \<le> 780"
    using getMonthDays_range[of y m] d unfolding k_def by auto
  have "\<bar>(s + k) * msPerDay\<bar> \<le> 8640000000000000"
    using k0 k1 s'(2,3) DayFromYear_1900_2100[OF y] unfolding ss
    by (simp add: msPerDay_def abs_le_iff)
  then have clip: "TimeClip ((s + k) * msPerDay) = Some ((s + k) * msPerDay)"
    by (simp add: TimeClip_def)
  have eq: "s * msPerDay + k * 86400000 = (s + k) * msPerDay"
    by (simp add: msPerDay_def algebra_simps)
  have "lunarToSolar \<lparr>lyear = y, lmonth = m, lday = Some d, isLeapMonth = b\<rparr>
          = Inr (TimeClip (s * msPerDay + k * 86400000))"
    using y m d leap len
    by (auto simp: lunarToSolar_def Let_def js_lt_def js_gt_def js_add_def js_sub_def sf k_def)
  then have "lunarToSolar \<lparr>lyear = y, lmonth = m, lday = Some d, isLeapMonth = b\<rparr>
          = Inr (Some ((s + k) * msPerDay))"
    by (simp only: eq clip)
  then show ?thesis by (simp add: k_def)
qed

text \<open>
  C3: \<^verbatim>\<open>lunarToSolar\<close> throws exactly when the year is outside 1900..2100, the month is
  outside 1..12, the day is outside 1..30, the leap flag is set although the month is not
  the leap month that the table encodes for the year (0 when the year has none), or the
  day exceeds the encoded length of the chosen ordinary or leap month; in every other case
  it returns a valid date.
\<close>

theorem lunarToSolar_failure_conditions:
  "((\<exists>e. lunarToSolar \<lparr>lyear = y, lmonth = m, lday = Some d, isLeapMonth = b\<rparr> = Inl e) \<longleftrightarrow>
      y < 1900 \<or> y > 2100 \<or> m < 1 \<or> m > 12 \<or> d < 1 \<or> d > 30 \<or>
      (b \<and> getLeapMonthInternal y \<noteq> m) \<or>
      d > (if b then getLeapMonthDays y else getMonthDays y m)) \<and>
   ((\<exists>v. lunarToSolar \<lparr>lyear = y, lmonth = m, lday = Some d, isLeapMonth = b\<rparr> = Inr (Some v)) \<longleftrightarrow>
      \<not> (y < 1900 \<or> y > 2100 \<or> m < 1 \<or> m > 12 \<or> d < 1 \<or> d > 30 \<or>
         (b \<and> getLeapMonthInternal y \<noteq> m) \<or>
         d > (if b then getLeapMonthDays y else getMonthDays y m)))"
proof (cases "y < 1900 \<or> y > 2100 \<or> m < 1 \<or> m > 12 \<or> d < 1 \<or> d > 30 \<or>
      (b \<and> getLeapMonthInternal y \<noteq> m) \<or>
      d > (if b then getLeapMonthDays y else getMonthDays y m)")
  case True
  then have "\<exists>e. lunarToSolar \<lparr>lyear = y, lmonth = m, lday = Some d, isLeapMonth = b\<rparr> = Inl e"
    by (auto simp: lunarToSolar_def Let_def js_lt_def js_gt_def)
  then show ?thesis using True by auto
next
  case False
  then have y: "1900 \<le> y" "y \<le> 2100" and m: "1 \<le> m" "m \<le> 12" and d: "1 \<le> d" "d \<le> 30"
    and leap: "b \<longrightarrow> getLeapMonthInternal y = m"
    and len: "d \<le> (if b then getLeapMonthDays y else getMonthDays y m)"
    by auto
  obtain s where s: "getSpringFestivalDate y = Some (s * msPerDay)"
    using getSpringFestivalDate_Some[OF y] by blast
  from lunarToSolar_returns[OF y m d leap len s] False show ?thesis by auto
qed

theorem lunarToSolar_failure_conditions_witness:
  "(\<exists>e. lunarToSolar \<lparr>lyear = 2023, lmonth = 1, lday = Some 30, isLeapMonth = False\<rparr> = Inl e) \<and>
   (\<exists>e. lunarToSolar \<lparr>lyear = 2023, lmonth = 3, lday = Some 1, isLeapMonth = True\<rparr> = Inl e) \<and>
   (\<exists>v. lunarToSolar \<lparr>lyear = 2023, lmonth = 2, lday = Some 1, isLeapMonth = True\<rparr> = Inr (Some v))"
proof -
  have a: "getMonthDays 2023 1 = 29" by code_simp
  have b: "getLeapMonthInternal 2023 = 2" by code_simp
  have c: "getLeapMonthDays 2023 = 30" by code_simp
  show ?thesis
    using lunarToSolar_failure_conditions[of 2023 1 30 False]
      lunarToSolar_failure_conditions[of 2023 3 1 True]
      lunarToSolar_failure_conditions[of 2023 2 1 True] a b c
    by simp
qed

lemma range_ends:
  "UTC_value 1900 0 31 0 0 0 = - 25537 * msPerDay"
  "UTC_value 2101 0 1 0 0 0 = 47847 * msPerDay"
  "DayFromYear 1900 = - 25567" "DayFromYear 2101 = 47847"
  by (simp_all add: UTC_value_def MakeDay_def DayFromYear_def DaysInYear_def monthStart_def)

lemma springFestival_1900: "getSpringFestivalDate 1900 = Some (- 25537 * msPerDay)"
  by (simp add: getSpringFestivalDate_def arr_get_def SPRING_FESTIVAL_def js_rem_def
        smod_mod_positive Date_UTC_def UTC_value_def MakeDay_def DayFromYear_def DaysInYear_def
        monthStart_def TimeClip_def msPerDay_def)

lemma daysBetween_day_starts:
  assumes "- 25567 \<le> a" "a \<le> 47847" "- 25567 \<le> b" "b \<le> 47847"
  shows "daysBetween (Some (a * msPerDay)) (Some (b * msPerDay)) = Some (b - a)"
proof -
  have f: "Date_UTC (getUTCFullYear (x * msPerDay)) (getUTCMonth (x * msPerDay))
             (getUTCDate (x * msPerDay)) 0 0 0 = Some (x * msPerDay)"
    if "- 25567 \<le> x" "x \<le> 47847" for x
  proof -
    have "DayFromYear 1900 \<le> x" using that by (simp add: range_ends)
    then have "1900 \<le> YearFromDay x" by (rule YearFromDay_ge)
    then have "100 \<le> YearFromTime (x * msPerDay)" by (simp add: YearFromTime_def Day_mult)
    moreover have "\<bar>Day (x * msPerDay) * msPerDay\<bar> \<le> 8640000000000000"
      unfolding Day_mult using that by (simp add: msPerDay_def abs_le_iff)
    ultimately show ?thesis using Date_UTC_fields[of "x * msPerDay"] by (simp add: Day_mult)
  qed
  have "(b * msPerDay - a * msPerDay) div 86400000 = b - a"
  proof -
    have "b * msPerDay - a * msPerDay = (b - a) * 86400000"
      by (simp add: msPerDay_def algebra_simps)
    then show ?thesis by simp
  qed
  then show ?thesis
    by (simp add: daysBetween_def Let_def f[OF assms(1,2)] f[OF assms(3,4)] js_sub_def)
qed

lemma solar_parts:
  assumes "UTC_value 1900 0 31 0 0 0 \<le> t" "t < UTC_value 2101 0 1 0 0 0"
  shows "\<exists>s. 1900 \<le> getUTCFullYear t \<and> getUTCFullYear t \<le> 2100 \<and>
             1900 \<le> lunarYearOf t \<and> lunarYearOf t \<le> 2100 \<and>
             getSpringFestivalDate (lunarYearOf t) = Some (s * msPerDay) \<and>
             lunarOffsetOf t = Some (Day t - s) \<and> 0 \<le> Day t - s \<and>
             (lunarYearOf t = getUTCFullYear t \<longrightarrow> Day t < DayFromYear (lunarYearOf t + 1)) \<and>
             DayFromYear (lunarYearOf t) + 18 \<le> s"
proof -
  define D where "D = Day t"
  define Y where "Y = getUTCFullYear t"
  have "Day (- 25537 * msPerDay) \<le> Day t" using assms(1) unfolding range_ends by (rule Day_mono)
  then have D0: "- 25537 \<le> D" unfolding Day_mult D_def .
  have D1: "D < 47847"
    using assms(2) unfolding range_ends D_def Day_def msPerDay_def
    by (simp add: div_less_iff_less_mult)
  have Y_def': "Y = YearFromDay D" by (simp add: Y_def D_def getUTCFullYear_def YearFromTime_def)
  have Y0: "1900 \<le> Y" unfolding Y_def' using D0 by (intro YearFromDay_ge) (simp add: range_ends)
  have "Y < 2101" unfolding Y_def' using D1 by (intro YearFromDay_less) (simp add: range_ends)
  then have Y1: "Y \<le> 2100" by simp
  have YD: "DayFromYear Y \<le> D" "D < DayFromYear (Y + 1)"
    using YearFromDay_bounds[of D] by (simp_all add: Y_def')
  have "100 \<le> YearFromTime t" using Y0 by (simp add: Y_def getUTCFullYear_def)
  moreover have "\<bar>Day t * msPerDay\<bar> \<le> 8640000000000000"
    using D0 D1 by (simp add: D_def[symmetric] msPerDay_def abs_le_iff)
  ultimately have inp: "Date_UTC (getUTCFullYear t) (getUTCMonth t) (getUTCDate t) 0 0 0
                          = Some (D * msPerDay)"
    unfolding D_def by (rule Date_UTC_fields)
  obtain sY where sY: "getSpringFestivalDate Y = Some (sY * msPerDay)"
      "DayFromYear Y + 18 \<le> sY" "sY \<le> DayFromYear Y + 50"
    using getSpringFestivalDate_Some[OF Y0 Y1] by blast
  define ly where "ly = lunarYearOf t"
  have inp': "Date_UTC Y (getUTCMonth t) (getUTCDate t) 0 0 0 = Some (D * msPerDay)"
    using inp by (simp add: Y_def)
  have ly: "ly = (if sY \<le> D then Y else Y - 1)"
    by (simp add: ly_def lunarYearOf_def Let_def Y_def[symmetric] inp' sY(1) js_ge_def msPerDay_def)
  have ly0: "1900 \<le> ly"
  proof (cases "Y = 1900")
    case True
    then have "sY = - 25537" using sY(1) springFestival_1900 by (simp add: msPerDay_def)
    then show ?thesis using D0 True by (simp add: ly)
  next
    case False
    then show ?thesis using Y0 by (simp add: ly)
  qed
  have ly1: "ly \<le> 2100" using Y1 by (simp add: ly)
  obtain s where s: "getSpringFestivalDate ly = Some (s * msPerDay)"
      "DayFromYear ly + 18 \<le> s" "s \<le> DayFromYear ly + 50"
    using getSpringFestivalDate_Some[OF ly0 ly1] by blast
  have s_le: "s \<le> D"
  proof (cases "sY \<le> D")
    case True
    then have "ly = Y" by (simp add: ly)
    then have "s = sY" using s(1) sY(1) by (simp add: msPerDay_def)
    then show ?thesis using True by simp
  next
    case False
    then have e: "ly = Y - 1" by (simp add: ly)
    have "DayFromYear Y = DayFromYear (Y - 1) + DaysInYear (Y - 1)"
      using DayFromYear_Suc[of "Y - 1"] by simp
    then have "DayFromYear (Y - 1) + 365 \<le> DayFromYear Y"
      using DaysInYear_pos(1)[of "Y - 1"] by simp
    then show ?thesis using s(3) YD(1) unfolding e by simp
  qed
  have s0: "- 25567 \<le> s" "s \<le> 47847"
    using s(2) s_le D1 DayFromYear_1900_2100[OF ly0 ly1] by simp_all
  have D': "- 25567 \<le> D" "D \<le> 47847" using D0 D1 by simp_all
  have off: "lunarOffsetOf t = Some (D - s)"
    unfolding lunarOffsetOf_def ly_def[symmetric] s(1) inp
    by (rule daysBetween_day_starts[OF s0 D'])
  have "ly = Y \<longrightarrow> D < DayFromYear (ly + 1)" using YD(2) by simp
  then show ?thesis
    using Y0 Y1 ly0 ly1 s(1,2) off s_le
    unfolding Y_def D_def ly_def by (intro exI[of _ s]) simp
qed

lemma sumLoop_lower: "a \<le> b + 1 \<Longrightarrow> 29 * (b + 1 - a) \<le> sumLoop y l [a..b] 0"
proof (induction "nat (b + 1 - a)" arbitrary: a)
  case 0
  then have "[a..b] = []" by simp
  with 0 show ?case by simp
next
  case (Suc n)
  have ab: "a \<le> b" using Suc.hyps(2) by simp
  have n: "n = nat (b + 1 - (a + 1))" using Suc.hyps(2) by simp
  have "a + 1 \<le> b + 1" using ab by simp
  from Suc.hyps(1)[OF n this] have "29 * (b + 1 - (a + 1)) \<le> sumLoop y l [a + 1..b] 0" .
  then show ?case
    using sumLoop_upto_rec[OF ab, of y l] getMonthDays_range[of y a] getLeapMonthDays_range[of y]
    by auto
qed

lemma getLunarYearDays_lower: "348 \<le> getLunarYearDays y"
  using sumLoop_lower[of 1 12 y "getLeapMonthInternal y"] by (simp add: sumLoop_year)

lemma on_or_after_spring_festival:
  assumes "UTC_value 1900 0 31 0 0 0 \<le> t" and "t < UTC_value 2101 0 1 0 0 0"
    and "lunarYearOf t = getUTCFullYear t"
  shows "js_lt (lunarOffsetOf t) (Some (getLunarYearDays (lunarYearOf t)))"
proof -
  obtain s where p: "lunarOffsetOf t = Some (Day t - s)"
      "lunarYearOf t = getUTCFullYear t \<longrightarrow> Day t < DayFromYear (lunarYearOf t + 1)"
      "DayFromYear (lunarYearOf t) + 18 \<le> s"
    using solar_parts[OF assms(1,2)] by blast
  have "Day t - s < DaysInYear (lunarYearOf t) - 18"
    using p(2,3) assms(3) DayFromYear_Suc[of "lunarYearOf t"] by simp
  also have "\<dots> \<le> 348" using DaysInYear_pos(2)[of "lunarYearOf t"] by simp
  also have "\<dots> \<le> getLunarYearDays (lunarYearOf t)" by (rule getLunarYearDays_lower)
  finally show ?thesis by (simp add: p(1) js_lt_def)
qed

text \<open>
  Where the round trip holds: let the instant lie in [1900-01-31, 2100-12-31], and let its
  date be on or after the \<^verbatim>\<open>SPRING_FESTIVAL\<close> date of its own civil year, or fewer than
  \<^verbatim>\<open>getLunarYearDays\<close> days after the \<^verbatim>\<open>SPRING_FESTIVAL\<close> date of the lunar year that
  \<^verbatim>\<open>solarToLunar\<close> assigns to it.  Then \<^verbatim>\<open>solarToLunar\<close> returns a lunar date, and
  \<^verbatim>\<open>lunarToSolar\<close> of that lunar date returns the same calendar date.
\<close>

lemma round_trip_inside_encoded_year:
  assumes "UTC_value 1900 0 31 0 0 0 \<le> t" and "t < UTC_value 2101 0 1 0 0 0"
    and "lunarYearOf t = getUTCFullYear t \<or>
         js_lt (lunarOffsetOf t) (Some (getLunarYearDays (lunarYearOf t)))"
  shows "roundTrips t"
proof -
  have inside: "js_lt (lunarOffsetOf t) (Some (getLunarYearDays (lunarYearOf t)))"
    using assms(3) on_or_after_spring_festival[OF assms(1,2)] by blast
  define ly where "ly = lunarYearOf t"
  define l where "l = getLeapMonthInternal ly"
  obtain s where p: "1900 \<le> getUTCFullYear t" "getUTCFullYear t \<le> 2100"
      "1900 \<le> ly" "ly \<le> 2100"
      "getSpringFestivalDate ly = Some (s * msPerDay)"
      "lunarOffsetOf t = Some (Day t - s)" "0 \<le> Day t - s"
    using solar_parts[OF assms(1,2)] unfolding ly_def by blast
  define off where "off = Day t - s"
  have lt: "off < sumLoop ly l [1..12] 0"
    using inside unfolding p(6) ly_def[symmetric] l_def sumLoop_year
    by (simp add: js_lt_def off_def)
  obtain m isLeap r where r: "monthLoop ly l [1..12] (Some off) = (m, isLeap, Some r)"
      "1 \<le> m" "m \<le> 12" "0 \<le> r"
      "r < (if isLeap then getLeapMonthDays ly else getMonthDays ly m)"
      "isLeap \<longrightarrow> l = m"
      "off = sumLoop ly l [1..m - 1] 0 + (if isLeap then getMonthDays ly m else 0) + r"
    using monthLoop_found[OF p(7)[folded off_def] lt] by blast
  have r30: "r + 1 \<le> 30"
    using r(5) getMonthDays_range[of ly m] getLeapMonthDays_range[of ly] by (auto split: if_splits)
  have stl: "solarToLunar t = Inr \<lparr>lyear = ly, lmonth = m, lday = Some (r + 1), isLeapMonth = isLeap\<rparr>"
    using p(1,2,7) r(1,2)
    by (simp add: solarToLunar_alt ly_def[symmetric] l_def[symmetric] p(6) off_def[symmetric]
          js_lt_def js_add_def)
  have "lunarToSolar \<lparr>lyear = ly, lmonth = m, lday = Some (r + 1), isLeapMonth = isLeap\<rparr> =
          Inr (Some ((s + (sumLoop ly (getLeapMonthInternal ly) [1..m - 1] 0
                  + (if isLeap then getMonthDays ly m else 0) + (r + 1 - 1))) * msPerDay))"
    using r(4,5,6) r30
    by (intro lunarToSolar_returns[OF p(3,4) r(2,3) _ _ _ _ p(5)]) (simp_all add: l_def)
  also have "\<dots> = Inr (Some (Day t * msPerDay))"
    using r(7) by (simp add: l_def[symmetric] off_def)
  finally show ?thesis
    by (simp add: roundTrips_def stl sameDate_day_start)
qed

text \<open>
  C1: the round trip fails inside the supported range.  The year lengths that
  \<^verbatim>\<open>getMonthDays\<close> and \<^verbatim>\<open>getLeapMonthDays\<close> decode from \<^verbatim>\<open>LUNAR_INFO\<close> disagree with the
  \<^verbatim>\<open>SPRING_FESTIVAL\<close> table: the lunar year 1902 has 354 decoded days, and 355 days lie
  between the spring festivals of 1902 and 1903.  On 1903-01-28, the last day before the
  spring festival, the month loop ends without a month, the fallback that the source
  comments as unreachable reports month 12 day 1, and \<^verbatim>\<open>lunarToSolar\<close> returns 1902-12-29.
  On 2054-02-06 \<^verbatim>\<open>solarToLunar\<close> returns day 31 of month 12, which \<^verbatim>\<open>lunarToSolar\<close> rejects.
\<close>

theorem round_trip_fails_inside_range:
  "UTC_value 1900 0 31 0 0 0 \<le> UTC_value 1903 0 28 0 0 0 \<and>
   UTC_value 1903 0 28 0 0 0 < UTC_value 2101 0 1 0 0 0 \<and>
   getLunarYearDays 1902 = 354 \<and>
   lunarOffsetOf (UTC_value 1903 0 28 0 0 0) = Some 354 \<and>
   solarToLunar (UTC_value 1903 0 28 0 0 0) =
     Inr \<lparr>lyear = 1902, lmonth = 12, lday = Some 1, isLeapMonth = False\<rparr> \<and>
   lunarToSolar \<lparr>lyear = 1902, lmonth = 12, lday = Some 1, isLeapMonth = False\<rparr> =
     Inr (Some (UTC_value 1902 11 29 0 0 0)) \<and>
   \<not> roundTrips (UTC_value 1903 0 28 0 0 0) \<and>
   solarToLunar (UTC_value 2054 1 6 0 0 0) =
     Inr \<lparr>lyear = 2053, lmonth = 12, lday = Some 31, isLeapMonth = False\<rparr> \<and>
   lunarToSolar \<lparr>lyear = 2053, lmonth = 12, lday = Some 31, isLeapMonth = False\<rparr> =
     Inl (InvalidLunarDay (Some 31)) \<and>
   \<not> roundTrips (UTC_value 2054 1 6 0 0 0)"
proof -
  have c1: "UTC_value 1900 0 31 0 0 0 \<le> UTC_value 1903 0 28 0 0 0"
    by code_simp
  have c2: "UTC_value 1903 0 28 0 0 0 < UTC_value 2101 0 1 0 0 0"
    by code_simp
  have c3: "getLunarYearDays 1902 = 354"
    by code_simp
  have c4: "lunarOffsetOf (UTC_value 1903 0 28 0 0 0) = Some 354"
    by code_simp
  have c5: "solarToLunar (UTC_value 1903 0 28 0 0 0) =
    Inr \<lparr>lyear = 1902, lmonth = 12, lday = Some 1, isLeapMonth = False\<rparr>"
    by code_simp
  have c6: "lunarToSolar \<lparr>lyear = 1902, lmonth = 12, lday = Some 1, isLeapMonth = False\<rparr> =
    Inr (Some (UTC_value 1902 11 29 0 0 0))"
    by code_simp
  have c7: "\<not> roundTrips (UTC_value 1903 0 28 0 0 0)"
    by code_simp
  have c8: "solarToLunar (UTC_value 2054 1 6 0 0 0) =
    Inr \<lparr>lyear = 2053, lmonth = 12, lday = Some 31, isLeapMonth = False\<rparr>"
    by code_simp
  have c9: "lunarToSolar \<lparr>lyear = 2053, lmonth = 12, lday = Some 31, isLeapMonth = False\<rparr> =
    Inl (InvalidLunarDay (Some 31))"
    by code_simp
  have c10: "\<not> roundTrips (UTC_value 2054 1 6 0 0 0)"
    by code_simp
  from c1 c2 c3 c4 c5 c6 c7 c8 c9 c10 show ?thesis by simp
qed

text \<open>
  Before 1900-01-31, the first \<^verbatim>\<open>SPRING_FESTIVAL\<close> date, the lunar year would be 1899,
  which the tables do not hold: \<^verbatim>\<open>solarToLunar\<close> returns that year with the day \<^verbatim>\<open>NaN\<close>, and
  \<^verbatim>\<open>lunarToSolar\<close> rejects the year.
\<close>

lemma conversions_on_1900_01_01:
  "solarToLunar (UTC_value 1900 0 1 0 0 0) =
     Inr \<lparr>lyear = 1899, lmonth = 12, lday = None, isLeapMonth = False\<rparr>"
  "lunarToSolar \<lparr>lyear = 1899, lmonth = 12, lday = None, isLeapMonth = False\<rparr> =
     Inl (LunarYearOutOfRange 1899)"
  "\<not> roundTrips (UTC_value 1900 0 1 0 0 0)"
  by code_simp+

lemma monthLoop_not_found:
  assumes "0 \<le> off" "sumLoop y l [a..b] 0 \<le> off"
  shows "monthLoop y l [a..b] (Some off) = (0, False, Some (off - sumLoop y l [a..b] 0))"
  using assms
proof (induction "nat (b + 1 - a)" arbitrary: a off)
  case 0
  then have "[a..b] = []" by simp
  then show ?case by simp
next
  case (Suc n)
  have ab: "a \<le> b" using Suc.hyps(2) by simp
  have list: "[a..b] = a # [a + 1..b]" using ab by (simp add: upto_rec1)
  have n: "n = nat (b + 1 - (a + 1))" using Suc.hyps(2) by simp
  define d where "d = getMonthDays y a"
  define e where "e = (if l = a then getLeapMonthDays y else 0)"
  define rest where "rest = sumLoop y l [a + 1..b] 0"
  have total: "sumLoop y l [a..b] 0 = d + e + rest"
    using sumLoop_upto_rec[OF ab, of y l] by (simp add: d_def e_def rest_def)
  have rest0: "0 \<le> rest" unfolding rest_def by (rule sumLoop_nonneg)
  have e0: "0 \<le> e" using getLeapMonthDays_range[of y] by (auto simp: e_def)
  have d0: "0 \<le> d" using getMonthDays_range[of y a] by (auto simp: d_def)
  have ge: "d + e + rest \<le> off" using Suc.prems(2) total by simp
  have 1: "0 \<le> off - d - e" "rest \<le> off - d - e" using ge rest0 by simp_all
  from Suc.hyps(1)[OF n 1[unfolded rest_def]]
  have IH: "monthLoop y l [a + 1..b] (Some (off - d - e)) = (0, False, Some (off - d - e - rest))"
    by (simp add: rest_def)
  have nd: "\<not> off < d" using ge e0 rest0 by simp
  have ne: "\<not> off - d < e" using ge rest0 by simp
  show ?case
  proof (cases "l = a")
    case True
    then have e: "e = getLeapMonthDays y" by (simp add: e_def)
    show ?thesis
      using nd ne IH True unfolding total
      by (simp add: list js_lt_def js_sub_def Let_def d_def[symmetric] e[symmetric] algebra_simps)
  next
    case False
    then have e: "e = 0" by (simp add: e_def)
    show ?thesis
      using nd IH False unfolding total
      by (simp add: list js_lt_def js_sub_def Let_def d_def[symmetric] e algebra_simps)
  qed
qed

lemma sameDate_Day: "sameDate a b \<Longrightarrow> Day a = Day b"
  using MakeDay_fields[of a] MakeDay_fields[of b]
  by (simp add: sameDate_def getUTCFullYear_def getUTCMonth_def getUTCDate_def)

lemma sumLoop_last:
  "sumLoop y l [1..12] 0 =
     sumLoop y l [1..11] 0 + getMonthDays y 12 + (if l = 12 then getLeapMonthDays y else 0)"
proof -
  have "[1..12] = [1..11] @ [12 :: int]" by (simp add: months_1_12 upto_rec1)
  moreover have "sumLoop y l (xs @ [m]) acc =
      sumLoop y l xs acc + getMonthDays y m + (if l = m then getLeapMonthDays y else 0)"
    for xs m acc
    by (induction xs arbitrary: acc) (simp_all add: Let_def)
  ultimately show ?thesis by simp
qed

text \<open>
  Everywhere else in the range the round trip fails: an instant of the range whose date lies \<^verbatim>\<open>getLunarYearDays\<close> days or more after the \<^verbatim>\<open>SPRING_FESTIVAL\<close> date of
  its lunar year does not round-trip.  The month loop then ends without a month, the
  fallback reports month 12, and \<^verbatim>\<open>lunarToSolar\<close> throws or returns an earlier date.
\<close>

lemma beyond_encoded_year:
  assumes "UTC_value 1900 0 31 0 0 0 \<le> t" and "t < UTC_value 2101 0 1 0 0 0"
    and "\<not> js_lt (lunarOffsetOf t) (Some (getLunarYearDays (lunarYearOf t)))"
  shows "\<not> roundTrips t"
proof -
  define ly where "ly = lunarYearOf t"
  define l where "l = getLeapMonthInternal ly"
  obtain s where p: "1900 \<le> getUTCFullYear t" "getUTCFullYear t \<le> 2100"
      "1900 \<le> ly" "ly \<le> 2100"
      "getSpringFestivalDate ly = Some (s * msPerDay)"
      "lunarOffsetOf t = Some (Day t - s)" "0 \<le> Day t - s"
    using solar_parts[OF assms(1,2)] unfolding ly_def by blast
  define off where "off = Day t - s"
  define total where "total = sumLoop ly l [1..12] 0"
  have ge: "total \<le> off"
    using assms(3) unfolding p(6) ly_def[symmetric] total_def l_def sumLoop_year
    by (simp add: js_lt_def off_def)
  have loop: "monthLoop ly l [1..12] (Some off) = (0, False, Some (off - total))"
    unfolding total_def by (rule monthLoop_not_found[OF p(7)[folded off_def] ge[unfolded total_def]])
  define d where "d = off - total + 1"
  have stl: "solarToLunar t = Inr \<lparr>lyear = ly, lmonth = 12, lday = Some d, isLeapMonth = False\<rparr>"
    using p(1,2,7)
    by (simp add: solarToLunar_alt ly_def[symmetric] l_def[symmetric] p(6) off_def[symmetric]
          js_lt_def js_add_def loop d_def)
  show ?thesis
  proof (cases "d \<le> 30 \<and> d \<le> getMonthDays ly 12")
    case True
    have d1: "1 \<le> d" using ge by (simp add: d_def)
    have "lunarToSolar \<lparr>lyear = ly, lmonth = 12, lday = Some d, isLeapMonth = False\<rparr> =
            Inr (Some ((s + (sumLoop ly (getLeapMonthInternal ly) [1..12 - 1] 0
                  + (if False then getMonthDays ly 12 else 0) + (d - 1))) * msPerDay))"
      using True d1 by (intro lunarToSolar_returns[OF p(3,4) _ _ _ _ _ _ p(5)]) simp_all
    then have lts: "lunarToSolar \<lparr>lyear = ly, lmonth = 12, lday = Some d, isLeapMonth = False\<rparr> =
            Inr (Some ((s + (sumLoop ly l [1..11] 0 + (d - 1))) * msPerDay))"
      by (simp add: l_def)
    have "Day ((s + (sumLoop ly l [1..11] 0 + (d - 1))) * msPerDay) \<noteq> Day t"
    proof -
      have "sumLoop ly l [1..11] 0 + (d - 1) < off"
        using sumLoop_last[of ly l] getMonthDays_range[of ly 12] getLeapMonthDays_range[of ly]
        unfolding d_def total_def by (auto split: if_splits)
      then show ?thesis unfolding Day_mult off_def by simp
    qed
    then have "\<not> sameDate ((s + (sumLoop ly l [1..11] 0 + (d - 1))) * msPerDay) t"
      using sameDate_Day by blast
    then show ?thesis by (simp add: roundTrips_def stl lts)
  next
    case False
    then have "\<exists>e. lunarToSolar \<lparr>lyear = ly, lmonth = 12, lday = Some d, isLeapMonth = False\<rparr> = Inl e"
      by (auto simp: lunarToSolar_def Let_def js_lt_def js_gt_def)
    then show ?thesis by (auto simp: roundTrips_def stl)
  qed
qed

text \<open>The instants of the range on which the round trip holds.\<close>

lemma roundTrips_iff:
  assumes "UTC_value 1900 0 31 0 0 0 \<le> t" and "t < UTC_value 2101 0 1 0 0 0"
  shows "roundTrips t \<longleftrightarrow> js_lt (lunarOffsetOf t) (Some (getLunarYearDays (lunarYearOf t)))"
  using round_trip_inside_encoded_year[OF assms] beyond_encoded_year[OF assms] by blast

end
